theory Spec2Isabelle
  imports Main "HOL-Library.Word" "HOL-Library.Multiset"
begin

section \<open>Strings, paths and the file system seen by tree.js\<close>

text \<open>
  A JavaScript string is a sequence of UTF-16 code units. The box-drawing glyphs of
  tree.js lie outside ASCII, so strings are lists of 16-bit words; \<open>js\<close> turns an ASCII
  literal into such a string.
\<close>

type_synonym jschar = "16 word"
type_synonym jsstring = "jschar list"

definition js :: "string \<Rightarrow> jsstring" where
  "js s = map (\<lambda>c. of_nat (of_char c)) s"

text \<open>
  Paths are kept as the list of their components: \<open>path.join(currentPath, item)\<close> of a
  directory path and an entry name appends one component. The paths only reach the
  file-system calls and the diagnostics.
\<close>

type_synonym path = "jsstring list"

definition path_join :: "path \<Rightarrow> jsstring \<Rightarrow> path" where
  "path_join currentPath item = currentPath @ [item]"

text \<open>
  The file system below the rendered root, as the two calls of tree.js observe it:
  \<^item> \<open>File\<close>: \<open>statSync\<close> succeeds, \<open>isDirectory()\<close> is false, \<open>readdirSync\<close> throws;
  \<^item> \<open>Dir es\<close>: a directory whose \<open>readdirSync\<close> returns the names of \<open>es\<close> in this
    (native enumeration) order;
  \<^item> \<open>NoRead\<close>: a directory (\<open>isDirectory()\<close> is true) whose \<open>readdirSync\<close> throws
    (permission denied);
  \<^item> \<open>NoStat\<close>: an entry whose \<open>statSync\<close> throws (a dangling symbolic link, a link
    to a directory that cannot be reached, an entry removed meanwhile).
  A throw is the value \<open>None\<close>; the text of \<open>error.message\<close> comes from the host and
  is not modelled.
\<close>

datatype fsnode = File | Dir "(jsstring \<times> fsnode) list" | NoRead | NoStat

fun readdirSync :: "fsnode \<Rightarrow> jsstring list option" where
  "readdirSync (Dir es) = Some (map fst es)"
| "readdirSync File = None"
| "readdirSync NoRead = None"
| "readdirSync NoStat = None"

text \<open>The node that \<open>path.join(currentPath, item)\<close> names, \<open>d\<close> being the node at \<open>currentPath\<close>.\<close>

fun entry :: "fsnode \<Rightarrow> jsstring \<Rightarrow> fsnode option" where
  "entry (Dir es) item = map_of es item"
| "entry File item = None"
| "entry NoRead item = None"
| "entry NoStat item = None"

text \<open>\<open>fs.statSync(path.join(currentPath, item)).isDirectory()\<close>\<close>

definition statIsDirectory :: "fsnode \<Rightarrow> jsstring \<Rightarrow> bool option" where
  "statIsDirectory d item =
     (case entry d item of
        None \<Rightarrow> None
      | Some File \<Rightarrow> Some False
      | Some (Dir es) \<Rightarrow> Some True
      | Some NoRead \<Rightarrow> Some True
      | Some NoStat \<Rightarrow> None)"

section \<open>The glyph sets\<close>

record symbols =
  vertical :: jsstring
  branch :: jsstring
  corner :: jsstring
  space :: jsstring

text \<open>
  The code units: U+2502 is the light vertical bar, U+251C the vertical-and-right tee,
  U+2514 the up-and-right corner, U+2500 the horizontal bar; 0x20 is the blank, 0x7C the
  ASCII bar, 0x2D the hyphen, 0x5C the backslash.
\<close>

definition symbolsFor :: "bool \<Rightarrow> symbols" where
  "symbolsFor useAscii =
     (if useAscii
      then \<lparr> vertical = [0x7C, 0x20, 0x20, 0x20],
             branch = [0x7C, 0x2D, 0x2D, 0x20],
             corner = [0x5C, 0x2D, 0x2D, 0x20],
             space = [0x20, 0x20, 0x20, 0x20] \<rparr>
      else \<lparr> vertical = [0x2502, 0x20, 0x20, 0x20],
             branch = [0x251C, 0x2500, 0x2500, 0x20],
             corner = [0x2514, 0x2500, 0x2500, 0x20],
             space = [0x20, 0x20, 0x20, 0x20] \<rparr>)"

section \<open>Filtering and sorting the entries of one directory\<close>

text \<open>The \<open>filter\<close> callback of \<open>buildTree\<close>: without \<open>showFiles\<close> every item is stat-ed.\<close>

fun filterItems :: "bool \<Rightarrow> fsnode \<Rightarrow> jsstring list \<Rightarrow> jsstring list option" where
  "filterItems showFiles d [] = Some []"
| "filterItems showFiles d (item # rest) =
     (if \<not> showFiles then
        (case statIsDirectory d item of
           None \<Rightarrow> None
         | Some keep \<Rightarrow>
             (case filterItems showFiles d rest of
                None \<Rightarrow> None
              | Some r \<Rightarrow> Some (if keep then item # r else r)))
      else
        (case filterItems showFiles d rest of
           None \<Rightarrow> None
         | Some r \<Rightarrow> Some (item # r)))"

text \<open>
  The \<open>sort\<close> callback. \<open>localeCompare\<close> is the host's collation for the locale
  \<open>en\<close>; it is the parameter \<open>lc\<close>, a negative, zero or positive number.
\<close>

definition compareItems ::
  "(jsstring \<Rightarrow> jsstring \<Rightarrow> int) \<Rightarrow> fsnode \<Rightarrow> jsstring \<Rightarrow> jsstring \<Rightarrow> int option" where
  "compareItems lc d a b =
     (case statIsDirectory d a of
        None \<Rightarrow> None
      | Some aIsDir \<Rightarrow>
          (case statIsDirectory d b of
             None \<Rightarrow> None
           | Some bIsDir \<Rightarrow>
               Some (if aIsDir \<and> \<not> bIsDir then - 1
                     else if \<not> aIsDir \<and> bIsDir then 1
                     else lc a b)))"

text \<open>
  \<open>Array.prototype.sort\<close> with a comparison callback is stable: an element moves in
  front of another only when the callback says it is smaller. It is modelled as a stable
  insertion sort, in which a throwing callback aborts the sort. For a callback that is a
  total preorder every stable sort returns the same list; for any other callback the
  language leaves the order to the implementation, and the model is one. Like the host's
  sort, the model calls the callback on every item of a list of two or more, and never
  on a list of one.
\<close>

fun insertBy :: "('a \<Rightarrow> 'a \<Rightarrow> int option) \<Rightarrow> 'a \<Rightarrow> 'a list \<Rightarrow> 'a list option" where
  "insertBy cmp x [] = Some [x]"
| "insertBy cmp x (y # ys) =
     (case cmp x y of
        None \<Rightarrow> None
      | Some c \<Rightarrow>
          (if c \<le> 0 then Some (x # y # ys)
           else (case insertBy cmp x ys of None \<Rightarrow> None | Some r \<Rightarrow> Some (y # r))))"

fun sortBy :: "('a \<Rightarrow> 'a \<Rightarrow> int option) \<Rightarrow> 'a list \<Rightarrow> 'a list option" where
  "sortBy cmp [] = Some []"
| "sortBy cmp (x # xs) =
     (case sortBy cmp xs of None \<Rightarrow> None | Some ys \<Rightarrow> insertBy cmp x ys)"


text \<open>\<open>items.filter(...).sort(...)\<close>\<close>

definition sortedItemsOf ::
  "(jsstring \<Rightarrow> jsstring \<Rightarrow> int) \<Rightarrow> bool \<Rightarrow> fsnode \<Rightarrow> jsstring list \<Rightarrow> jsstring list option" where
  "sortedItemsOf lc showFiles d items =
     (case filterItems showFiles d items of
        None \<Rightarrow> None
      | Some kept \<Rightarrow> sortBy (compareItems lc d) kept)"

section \<open>The recursive builder\<close>

text \<open>
  \<open>console.error(`Error reading path ${currentPath}: ${error.message}`)\<close>: the
  diagnostic names the path of the call that caught the error.
\<close>

datatype diagnostic = ErrorReadingPath path

definition slash :: jsstring where
  "slash = [0x2F]"

definition newline :: jschar where
  "newline = 0x0A"

lemma size_entry_less:
  "map_of es item = Some child \<Longrightarrow> size child < size (Dir es)"
proof -
  assume "map_of es item = Some child"
  then have "(item, child) \<in> set es"
    by (rule map_of_SomeD)
  then have "size child < Suc (size_list (size_prod (\<lambda>_. 0) size) es)"
    by (induction es) auto
  then show ?thesis by simp
qed

text \<open>
  \<open>buildTree\<close> returns the diagnostics written to \<open>console.error\<close>, in order, and the
  string it returns. \<open>forEachItem\<close> is the \<open>forEach\<close> callback run over the items from
  \<open>index\<close> on, \<open>n\<close> being \<open>sortedItems.length\<close>; its string is \<open>None\<close> when a
  \<open>statSync\<close> of the callback throws, which leaves \<open>buildTree\<close> through its
  \<open>catch\<close>: the text appended to \<open>result\<close> so far is dropped, the diagnostics logged so
  far stay. The closure variables \<open>showFiles\<close>, \<open>symbols\<close> and \<open>maxDepth\<close> are parameters,
  and so is the collation \<open>lc\<close>. The directory is passed as the node that \<open>currentPath\<close>
  names; a tree of nodes has no cycle, as a file system without links that lead back up.
\<close>

function
  buildTree ::
    "(jsstring \<Rightarrow> jsstring \<Rightarrow> int) \<Rightarrow> bool \<Rightarrow> symbols \<Rightarrow> int \<Rightarrow>
     fsnode \<Rightarrow> path \<Rightarrow> jsstring \<Rightarrow> bool \<Rightarrow> int \<Rightarrow> diagnostic list \<times> jsstring"
and
  forEachItem ::
    "(jsstring \<Rightarrow> jsstring \<Rightarrow> int) \<Rightarrow> bool \<Rightarrow> symbols \<Rightarrow> int \<Rightarrow>
     fsnode \<Rightarrow> path \<Rightarrow> jsstring \<Rightarrow> int \<Rightarrow> nat \<Rightarrow> nat \<Rightarrow> jsstring list \<Rightarrow>
     diagnostic list \<times> jsstring option"
where
  "buildTree lc showFiles sy maxDepth node currentPath prefix isLast depth =
     (if maxDepth \<noteq> - 1 \<and> depth > maxDepth then ([], [])
      else
        (case readdirSync node of
           None \<Rightarrow> ([ErrorReadingPath currentPath], [])
         | Some items \<Rightarrow>
             (case sortedItemsOf lc showFiles node items of
                None \<Rightarrow> ([ErrorReadingPath currentPath], [])
              | Some sortedItems \<Rightarrow>
                  (case forEachItem lc showFiles sy maxDepth node currentPath prefix depth
                          (length sortedItems) 0 sortedItems of
                     (log, None) \<Rightarrow> (log @ [ErrorReadingPath currentPath], [])
                   | (log, Some result) \<Rightarrow> (log, result)))))"
| "forEachItem lc showFiles sy maxDepth node currentPath prefix depth n index [] =
     ([], Some [])"
| "forEachItem lc showFiles sy maxDepth node currentPath prefix depth n index (item # rest) =
     (case statIsDirectory node item of
        None \<Rightarrow> ([], None)
      | Some isDirectory \<Rightarrow>
          (case (if isDirectory
                 then (case entry node item of
                         None \<Rightarrow> ([], [])
                       | Some child \<Rightarrow>
                           buildTree lc showFiles sy maxDepth child (path_join currentPath item)
                             (prefix @ (if index = n - 1 then space sy else vertical sy))
                             (index = n - 1) (depth + 1))
                 else ([], [])) of
             (log1, sub) \<Rightarrow>
               (case forEachItem lc showFiles sy maxDepth node currentPath prefix depth n
                       (index + 1) rest of
                  (log2, None) \<Rightarrow> (log1 @ log2, None)
                | (log2, Some result) \<Rightarrow>
                    (log1 @ log2,
                     Some (prefix @ (if index = n - 1 then corner sy else branch sy) @ item
                           @ (if isDirectory then slash else []) @ [newline]
                           @ sub @ result)))))"
  by pat_completeness auto
termination
proof (relation "measures
    [\<lambda>x. case x of Inl (lc, sf, sy, md, node, r) \<Rightarrow> size node
                  | Inr (lc, sf, sy, md, node, r) \<Rightarrow> size node,
     \<lambda>x. case x of Inl _ \<Rightarrow> Suc 0 | Inr _ \<Rightarrow> 0,
     \<lambda>x. case x of Inl _ \<Rightarrow> 0
                  | Inr (lc, sf, sy, md, node, cur, pre, d, n, i, items) \<Rightarrow> length items]",
    goal_cases)
  case 1
  show ?case by simp
next
  case 2
  then show ?case by simp
next
  case (3 lc showFiles sy maxDepth node currentPath prefix depth n index item rest x2 x2a)
  then show ?case
    by (cases node) (auto dest!: size_entry_less)
next
  case 4
  then show ?case by simp
qed

text \<open>
  \<open>tree\<close>: the glyphs are chosen from \<open>useAscii\<close>, then \<open>buildTree(absolutePath)\<close> runs
  with the default arguments \<open>prefix = ''\<close>, \<open>isLast = true\<close>, \<open>depth = 0\<close>. The checks
  of the root before it (the path exists and is a directory), the heading line and the
  sink of the text (\<open>outputFile\<close>) are not part of this model: \<open>root\<close> is the node at
  \<open>absolutePath\<close>.
\<close>

record options =
  showFiles :: bool
  useAscii :: bool

definition tree ::
  "(jsstring \<Rightarrow> jsstring \<Rightarrow> int) \<Rightarrow> fsnode \<Rightarrow> path \<Rightarrow> options \<Rightarrow> int \<Rightarrow>
   diagnostic list \<times> jsstring" where
  "tree lc root absolutePath opts maxDepth =
     buildTree lc (showFiles opts) (symbolsFor (useAscii opts)) maxDepth
       root absolutePath [] True 0"

text \<open>
  Two abbreviations for the body of the \<open>forEach\<close> callback at the item \<open>item\<close> of
  index \<open>index\<close>: the line it appends, and the recursive call it makes for a directory.
\<close>

definition subTree ::
  "(jsstring \<Rightarrow> jsstring \<Rightarrow> int) \<Rightarrow> bool \<Rightarrow> symbols \<Rightarrow> int \<Rightarrow>
   fsnode \<Rightarrow> path \<Rightarrow> jsstring \<Rightarrow> int \<Rightarrow> nat \<Rightarrow> nat \<Rightarrow> jsstring \<Rightarrow> diagnostic list \<times> jsstring" where
  "subTree lc sf sy maxDepth node currentPath prefix depth n index item =
     (if statIsDirectory node item = Some True
      then (case entry node item of
              None \<Rightarrow> ([], [])
            | Some child \<Rightarrow>
                buildTree lc sf sy maxDepth child (path_join currentPath item)
                  (prefix @ (if index = n - 1 then space sy else vertical sy))
                  (index = n - 1) (depth + 1))
      else ([], []))"

definition itemLine :: "symbols \<Rightarrow> fsnode \<Rightarrow> jsstring \<Rightarrow> nat \<Rightarrow> nat \<Rightarrow> jsstring \<Rightarrow> jsstring" where
  "itemLine sy node prefix n index item =
     prefix @ (if index = n - 1 then corner sy else branch sy) @ item
     @ (if statIsDirectory node item = Some True then slash else []) @ [newline]"

section \<open>A comparison for concrete directories\<close>

text \<open>
  To run the builder on a concrete directory a comparison has to stand in for the host's
  collation. \<open>asciiCompare\<close> orders names made of ASCII letters, digits and dots the way the
  \<open>en\<close> collation does: by their code units with the case of letters ignored, and names
  that are equal up to case with the lower-case letter first.
\<close>

definition foldCase :: "jschar \<Rightarrow> jschar" where
  "foldCase c = (if 0x41 \<le> c \<and> c \<le> 0x5A then c + 0x20 else c)"

fun unitCompare :: "jsstring \<Rightarrow> jsstring \<Rightarrow> int" where
  "unitCompare [] [] = 0"
| "unitCompare [] (y # ys) = - 1"
| "unitCompare (x # xs) [] = 1"
| "unitCompare (x # xs) (y # ys) =
     (if x < y then - 1 else if y < x then 1 else unitCompare xs ys)"

definition asciiCompare :: "jsstring \<Rightarrow> jsstring \<Rightarrow> int" where
  "asciiCompare a b =
     (if unitCompare (map foldCase a) (map foldCase b) \<noteq> 0
      then unitCompare (map foldCase a) (map foldCase b)
      else unitCompare b a)"

text \<open>The directory of the README's sample, in the order the sample lists it.\<close>

definition my_app :: fsnode where
  "my_app = Dir
     [(js ''src'', Dir
        [(js ''components'', Dir [(js ''Header.js'', File), (js ''Footer.js'', File)]),
         (js ''utils'', Dir []),
         (js ''index.js'', File)]),
      (js ''public'', Dir []),
      (js ''package.json'', File),
      (js ''README.md'', File)]"

text \<open>A directory that holds files only.\<close>

definition only_files :: fsnode where
  "only_files = Dir [(js ''b.txt'', File), (js ''a.txt'', File)]"

text \<open>A directory with one unreadable directory among its three entries.\<close>

definition three_children :: fsnode where
  "three_children = Dir
     [(js ''docs'', Dir [(js ''x'', File)]),
      (js ''locked'', NoRead),
      (js ''c.txt'', File)]"

text \<open>
  The same directory with a dangling symbolic link in place of the unreadable directory,
  and a directory that holds nothing but a dangling link.
\<close>

definition dangling_link :: fsnode where
  "dangling_link = Dir
     [(js ''docs'', Dir [(js ''x'', File)]),
      (js ''link'', NoStat),
      (js ''c.txt'', File)]"

definition lone_link :: fsnode where
  "lone_link = Dir [(js ''link'', NoStat)]"

text \<open>
  A directory \<open>p\<close> that holds an unreadable directory \<open>d\<close> and a file \<open>s.txt\<close>, beside a
  directory \<open>q\<close> that holds a file \<open>y\<close>.
\<close>

definition nested_failure :: fsnode where
  "nested_failure = Dir
     [(js ''p'', Dir [(js ''d'', NoRead), (js ''s.txt'', File)]),
      (js ''q'', Dir [(js ''y'', File)])]"

section \<open>Cutting a directory tree at a depth\<close>

text \<open>
  \<open>emptied\<close> turns a directory into an empty one and leaves every other entry as it is;
  \<open>limit k\<close> keeps the entries of a directory down to \<open>k\<close> levels below it and empties
  the directories found one level further down.
\<close>

fun emptied :: "fsnode \<Rightarrow> fsnode" where
  "emptied (Dir es) = Dir []"
| "emptied NoRead = Dir []"
| "emptied File = File"
| "emptied NoStat = NoStat"

function limit :: "nat \<Rightarrow> fsnode \<Rightarrow> fsnode" where
  "limit k (Dir es) =
     Dir (map (\<lambda>(name, child). (name, case k of 0 \<Rightarrow> emptied child | Suc k' \<Rightarrow> limit k' child)) es)"
| "limit k File = File"
| "limit k NoRead = NoRead"
| "limit k NoStat = NoStat"
  by pat_completeness auto
termination
proof (relation "measure (\<lambda>(k, node). size node)", goal_cases)
  case 1
  show ?case by simp
next
  case (2 k es x name child k')
  then have "(name, child) \<in> set es" by simp
  then have "size child < Suc (size_list (size_prod (\<lambda>_. 0) size) es)"
    by (induction es) auto
  then show ?case by simp
qed

text \<open>A directory with one subdirectory that has entries of its own.\<close>

definition one_sub :: fsnode where
  "one_sub = Dir [(js ''sub'', Dir [(js ''inner'', Dir [(js ''deep.txt'', File)]), (js ''x.txt'', File)])]"

section \<open>The code units of a rendering\<close>

text \<open>
  \<open>glyphUnits\<close>: the code units of the four glyphs of a set; \<open>nameUnits\<close>: the code units
  of all the entry names below a directory.
\<close>

definition glyphUnits :: "symbols \<Rightarrow> jschar set" where
  "glyphUnits sy = set (vertical sy) \<union> set (branch sy) \<union> set (corner sy) \<union> set (space sy)"

function nameUnits :: "fsnode \<Rightarrow> jschar set" where
  "nameUnits (Dir es) = (\<Union>(name, child)\<in>set es. set name \<union> nameUnits child)"
| "nameUnits File = {}"
| "nameUnits NoRead = {}"
| "nameUnits NoStat = {}"
  by pat_completeness auto
termination
proof (relation "measure size", goal_cases)
  case 1
  show ?case by simp
next
  case (2 es x name child)
  then have "(name, child) \<in> set es" by simp
  then have "size child < Suc (size_list (size_prod (\<lambda>_. 0) size) es)"
    by (induction es) auto
  then show ?case by simp
qed

section \<open>The sample of the README\<close>

text \<open>
  The lines of the sample below its heading, each given by its glyphs and its text:
  \<open>documented_sample\<close> as the README prints them, \<open>rendered_sample\<close> with the
  entries of each directory in the order of the collation.
\<close>

definition tee :: jsstring where
  "tee = [0x251C, 0x2500, 0x2500, 0x20]"

definition ell :: jsstring where
  "ell = [0x2514, 0x2500, 0x2500, 0x20]"

definition bar :: jsstring where
  "bar = [0x2502, 0x20, 0x20, 0x20]"

definition sample_text :: "(jsstring list \<times> string) list \<Rightarrow> jsstring" where
  "sample_text rows = concat (map (\<lambda>(glyphs, text). concat glyphs @ js text @ [newline]) rows)"

definition documented_sample :: jsstring where
  "documented_sample = sample_text
     [([tee], ''src/''),
      ([bar, tee], ''components/''),
      ([bar, bar, tee], ''Header.js''),
      ([bar, bar, ell], ''Footer.js''),
      ([bar, tee], ''utils/''),
      ([bar, ell], ''index.js''),
      ([tee], ''public/''),
      ([tee], ''package.json''),
      ([ell], ''README.md'')]"

definition rendered_sample :: jsstring where
  "rendered_sample = sample_text
     [([tee], ''public/''),
      ([tee], ''src/''),
      ([bar, tee], ''components/''),
      ([bar, bar, tee], ''Footer.js''),
      ([bar, bar, ell], ''Header.js''),
      ([bar, tee], ''utils/''),
      ([bar, ell], ''index.js''),
      ([tee], ''package.json''),
      ([ell], ''README.md'')]"

section \<open>What the sort needs from the collation\<close>






section \<open>The rows of a rendering\<close>

text \<open>
  A line without its glyphs: for each ancestor level whether the ancestor was the last
  entry of its directory, whether the entry itself is the last one, its name, and whether
  it is a directory. \<open>rowText\<close> draws such a line with a glyph set.
\<close>

type_synonym row = "bool list \<times> bool \<times> jsstring \<times> bool"

definition rowText :: "symbols \<Rightarrow> row \<Rightarrow> jsstring" where
  "rowText sy r =
     (case r of (ancestors, isLastItem, name, isDirectory) \<Rightarrow>
        concat (map (\<lambda>wasLast. if wasLast then space sy else vertical sy) ancestors)
        @ (if isLastItem then corner sy else branch sy) @ name
        @ (if isDirectory then slash else []) @ [newline])"

definition below :: "bool \<Rightarrow> row \<Rightarrow> row" where
  "below wasLast r = (case r of (ancestors, rest) \<Rightarrow> (wasLast # ancestors, rest))"

section \<open>A comparison that ties canonically equivalent names\<close>





section \<open>Facts about the filter and the sort\<close>

declare buildTree.simps [simp del]

lemma filterItems_showFiles: "filterItems True d items = Some items"
  by (induction items) auto

lemma filterItems_dirsOnly:
  "filterItems False d items =
     (if \<forall>x\<in>set items. statIsDirectory d x \<noteq> None
      then Some (filter (\<lambda>x. statIsDirectory d x = Some True) items)
      else None)"
  by (induction items) (auto split: option.splits)

lemma insertBy_mset: "insertBy cmp x ys = Some r \<Longrightarrow> mset r = add_mset x (mset ys)"
  by (induction ys arbitrary: r) (auto split: option.splits if_splits)

lemma sortBy_mset: "sortBy cmp xs = Some r \<Longrightarrow> mset r = mset xs"
  by (induction xs arbitrary: r) (auto split: option.splits dest: insertBy_mset)

lemma sortBy_set: "sortBy cmp xs = Some r \<Longrightarrow> set r = set xs"
  by (rule mset_eq_setD) (rule sortBy_mset)

lemma sortBy_length: "sortBy cmp xs = Some r \<Longrightarrow> length r = length xs"
  by (rule mset_eq_length) (rule sortBy_mset)

lemma insertBy_total:
  "\<forall>y\<in>set ys. cmp x y \<noteq> None \<Longrightarrow> \<exists>r. insertBy cmp x ys = Some r"
  by (induction ys) (auto split: option.splits)

lemma sortBy_total:
  "\<forall>x\<in>set xs. \<forall>y\<in>set xs. cmp x y \<noteq> None \<Longrightarrow> \<exists>r. sortBy cmp xs = Some r"
proof (induction xs)
  case Nil
  then show ?case by simp
next
  case (Cons x xs)
  then obtain ys where ys: "sortBy cmp xs = Some ys" by auto
  then have "set ys = set xs" by (rule sortBy_set)
  with Cons.prems have "\<forall>y\<in>set ys. cmp x y \<noteq> None" by simp
  then show ?case using ys insertBy_total[of ys cmp x] by auto
qed

lemma insertBy_fails:
  "ys \<noteq> [] \<Longrightarrow> \<forall>y. cmp x y = None \<Longrightarrow> insertBy cmp x ys = None"
  by (cases ys) auto


lemma sortBy_fails:
  assumes "\<exists>b\<in>set xs. (\<forall>z. cmp z b = None) \<and> (\<forall>z. cmp b z = None)" "2 \<le> length xs"
  shows "sortBy cmp xs = None"
  using assms
proof (induction xs)
  case Nil
  then show ?case by simp
next
  case (Cons x xs)
  show ?case
  proof (cases "sortBy cmp xs")
    case None
    then show ?thesis by simp
  next
    case (Some ys)
    have notboth: "\<not> ((\<exists>b\<in>set xs. (\<forall>z. cmp z b = None) \<and> (\<forall>z. cmp b z = None)) \<and> 2 \<le> length xs)"
    proof
      assume "(\<exists>b\<in>set xs. (\<forall>z. cmp z b = None) \<and> (\<forall>z. cmp b z = None)) \<and> 2 \<le> length xs"
      then have "sortBy cmp xs = None" using Cons.IH by blast
      then show False using Some by simp
    qed
    from Cons.prems(2) obtain y xs' where xs: "xs = y # xs'" by (cases xs) auto
    show ?thesis
    proof (cases "2 \<le> length xs")
      case True
      with notboth Cons.prems(1) have bx: "\<forall>z. cmp x z = None" by auto
      have "ys \<noteq> []" using sortBy_length[OF Some] xs by auto
      then show ?thesis using Some bx insertBy_fails[of ys cmp x] by simp
    next
      case False
      then have "xs = [y]" using xs by (cases xs') auto
      moreover from this Cons.prems(1) have "cmp x y = None" by auto
      ultimately show ?thesis by simp
    qed
  qed
qed





section \<open>Facts about the loop over the sorted items\<close>

lemma forEachItem_Cons:
  "forEachItem lc sf sy md node cur prefix depth n index (item # rest) =
     (case statIsDirectory node item of
        None \<Rightarrow> ([], None)
      | Some isDir \<Rightarrow>
          (case forEachItem lc sf sy md node cur prefix depth n (Suc index) rest of
             (log2, None) \<Rightarrow> (fst (subTree lc sf sy md node cur prefix depth n index item) @ log2, None)
           | (log2, Some result) \<Rightarrow>
               (fst (subTree lc sf sy md node cur prefix depth n index item) @ log2,
                Some (itemLine sy node prefix n index item
                      @ snd (subTree lc sf sy md node cur prefix depth n index item) @ result))))"
proof (cases "statIsDirectory node item")
  case None
  then show ?thesis by simp
next
  case (Some isDir)
  obtain log2 r where f: "forEachItem lc sf sy md node cur prefix depth n (Suc index) rest = (log2, r)"
    by (cases "forEachItem lc sf sy md node cur prefix depth n (Suc index) rest") auto
  show ?thesis
  proof (cases isDir)
    case True
    show ?thesis
    proof (cases "entry node item")
      case None
      then show ?thesis using Some True f
        by (cases r) (simp_all add: subTree_def itemLine_def)
    next
      case (Some child)
      obtain l1 s1 where b: "buildTree lc sf sy md child (path_join cur item)
                  (prefix @ (if index = n - 1 then space sy else vertical sy))
                  (index = n - 1) (depth + 1) = (l1, s1)"
        by (cases "buildTree lc sf sy md child (path_join cur item)
                  (prefix @ (if index = n - 1 then space sy else vertical sy))
                  (index = n - 1) (depth + 1)") auto
      show ?thesis using \<open>statIsDirectory node item = Some isDir\<close> True Some f b
        by (cases r) (simp_all add: subTree_def itemLine_def)
    qed
  next
    case False
    then show ?thesis using Some f
      by (cases r) (simp_all add: subTree_def itemLine_def)
  qed
qed

lemma forEachItem_closed:
  assumes "\<forall>x\<in>set items. statIsDirectory node x \<noteq> None"
  shows "forEachItem lc sf sy md node cur prefix depth n index items =
           (concat (map (\<lambda>(i, item). fst (subTree lc sf sy md node cur prefix depth n i item))
                      (zip [index..<index + length items] items)),
            Some (concat (map (\<lambda>(i, item). itemLine sy node prefix n i item
                                 @ snd (subTree lc sf sy md node cur prefix depth n i item))
                      (zip [index..<index + length items] items))))"
  using assms
proof (induction items arbitrary: index)
  case Nil
  then show ?case by simp
next
  case (Cons item rest)
  from Cons.prems obtain isDir where st: "statIsDirectory node item = Some isDir" by auto
  have rest: "\<forall>x\<in>set rest. statIsDirectory node x \<noteq> None" using Cons.prems by simp
  have u: "[index..<index + length (item # rest)] = index # [Suc index..<Suc index + length rest]"
    by (simp add: upt_rec)
  show ?case
    unfolding forEachItem_Cons u
    using Cons.IH[OF rest, of "Suc index"] st
    by simp
qed

lemma forEachItem_throws:
  assumes "\<exists>x\<in>set items. statIsDirectory node x = None"
  shows "snd (forEachItem lc sf sy md node cur prefix depth n index items) = None"
  using assms
proof (induction items arbitrary: index)
  case Nil
  then show ?case by simp
next
  case (Cons item rest)
  show ?case
  proof (cases "statIsDirectory node item")
    case None
    then show ?thesis by simp
  next
    case (Some isDir)
    with Cons.prems have "\<exists>x\<in>set rest. statIsDirectory node x = None" by auto
    then have "snd (forEachItem lc sf sy md node cur prefix depth n (Suc index) rest) = None"
      by (rule Cons.IH)
    then show ?thesis unfolding forEachItem_Cons using Some
      by (cases "forEachItem lc sf sy md node cur prefix depth n (Suc index) rest") auto
  qed
qed

lemma zip_upt_nth: "zip [0..<length xs] xs = map (\<lambda>i. (i, xs ! i)) [0..<length xs]"
  by (rule nth_equalityI) auto

lemma statIsDirectory_files:
  assumes "\<forall>e\<in>set es. snd e = File" "x \<in> set (map fst es)"
  shows "statIsDirectory (Dir es) x = Some False"
proof -
  from assms(2) obtain c where c: "map_of es x = Some c"
    by (metis map_of_eq_None_iff not_None_eq set_map)
  then have "(x, c) \<in> set es" by (rule map_of_SomeD)
  with assms(1) have "c = File" by auto
  with c show ?thesis by (simp add: statIsDirectory_def)
qed

section \<open>Facts about one call of the builder\<close>

lemma buildTree_pruned:
  "maxDepth \<noteq> - 1 \<Longrightarrow> depth > maxDepth \<Longrightarrow>
   buildTree lc sf sy maxDepth node cur prefix isLast depth = ([], [])"
  by (simp add: buildTree.simps)

lemma buildTree_readdir_throws:
  "maxDepth = - 1 \<or> depth \<le> maxDepth \<Longrightarrow> readdirSync node = None \<Longrightarrow>
   buildTree lc sf sy maxDepth node cur prefix isLast depth = ([ErrorReadingPath cur], [])"
  by (auto simp add: buildTree.simps)

lemma buildTree_listing:
  assumes "maxDepth = - 1 \<or> depth \<le> maxDepth"
    and "readdirSync node = Some items"
    and "sortedItemsOf lc sf node items = Some sortedItems"
    and "\<forall>x\<in>set sortedItems. statIsDirectory node x \<noteq> None"
  shows "buildTree lc sf sy maxDepth node cur prefix isLast depth =
           (concat (map (\<lambda>i. fst (subTree lc sf sy maxDepth node cur prefix depth (length sortedItems) i (sortedItems ! i)))
                      [0..<length sortedItems]),
            concat (map (\<lambda>i. itemLine sy node prefix (length sortedItems) i (sortedItems ! i)
                             @ snd (subTree lc sf sy maxDepth node cur prefix depth (length sortedItems) i (sortedItems ! i)))
                      [0..<length sortedItems]))"
proof -
  have g: "(maxDepth \<noteq> - 1 \<and> depth > maxDepth) = False" using assms(1) by auto
  show ?thesis
    unfolding buildTree.simps[of lc sf sy maxDepth node cur prefix isLast depth]
    using g assms(2,3) forEachItem_closed[OF assms(4), of lc sf sy maxDepth cur prefix depth "length sortedItems" 0]
    by (auto simp add: zip_upt_nth comp_def)
qed

lemma compareItems_None:
  "statIsDirectory d b = None \<Longrightarrow> compareItems lc d z b = None \<and> compareItems lc d b z = None"
  by (simp add: compareItems_def split: option.splits)

lemma buildTree_stat_throws:
  assumes "maxDepth = - 1 \<or> depth \<le> maxDepth"
    and "readdirSync node = Some items"
    and "\<exists>x\<in>set items. statIsDirectory node x = None"
  shows "buildTree lc sf sy maxDepth node cur prefix isLast depth = ([ErrorReadingPath cur], [])"
proof -
  have g: "(maxDepth \<noteq> - 1 \<and> depth > maxDepth) = False" using assms(1) by auto
  show ?thesis
  proof (cases sf)
    case False
    then have "sortedItemsOf lc sf node items = None"
      using assms(3) by (auto simp add: sortedItemsOf_def filterItems_dirsOnly)
    then show ?thesis
      unfolding buildTree.simps[of lc sf sy maxDepth node cur prefix isLast depth]
      using g assms(2) by auto
  next
    case True
    then have so: "sortedItemsOf lc sf node items = sortBy (compareItems lc node) items"
      by (simp add: sortedItemsOf_def filterItems_showFiles)
    show ?thesis
    proof (cases "2 \<le> length items")
      case True
      from assms(3) obtain b where b: "b \<in> set items" "statIsDirectory node b = None" by auto
      have "sortBy (compareItems lc node) items = None"
      proof (rule sortBy_fails)
        show "\<exists>b\<in>set items. (\<forall>z. compareItems lc node z b = None) \<and> (\<forall>z. compareItems lc node b z = None)"
          using b compareItems_None by blast
        show "2 \<le> length items" by fact
      qed
      then show ?thesis
        unfolding buildTree.simps[of lc sf sy maxDepth node cur prefix isLast depth]
        using g assms(2) so by auto
    next
      case False
      with assms(3) obtain x where x: "items = [x]" "statIsDirectory node x = None"
        by (cases items) (auto simp: not_le less_Suc_eq_0_disj)
      then have "sortedItemsOf lc sf node items = Some [x]" using so by simp
      then show ?thesis
        unfolding buildTree.simps[of lc sf sy maxDepth node cur prefix isLast depth]
        using g assms(2) x by auto
    qed
  qed
qed

lemma concat_map_split:
  assumes "i < n"
  shows "concat (map f [0..<n]) = concat (map f [0..<i]) @ f i @ concat (map f [Suc i..<n])"
proof -
  have "[0..<n] = [0..<i] @ i # [Suc i..<n]"
    using assms by (metis upt_conv_Cons upt_add_eq_append le_add_diff_inverse less_imp_le zero_le)
  then show ?thesis by simp
qed

lemma count_list_concat:
  "count_list (concat xss) c = sum_list (map (\<lambda>xs. count_list xs c) xss)"
  by (induction xss) simp_all

lemma count_list_notin: "c \<notin> set xs \<Longrightarrow> count_list xs c = 0"
  by (induction xs) auto

lemma only_files_filter:
  "filterItems False only_files [js ''b.txt'', js ''a.txt''] = Some []"
  by code_simp

lemma three_children_sorted:
  "sortedItemsOf asciiCompare True three_children [js ''docs'', js ''locked'', js ''c.txt'']
     = Some [js ''docs'', js ''locked'', js ''c.txt'']"
  by code_simp

lemma three_children_stat:
  "\<forall>x\<in>set [js ''docs'', js ''locked'', js ''c.txt'']. statIsDirectory three_children x \<noteq> None"
  by code_simp

lemma three_children_readdir:
  "readdirSync three_children = Some [js ''docs'', js ''locked'', js ''c.txt'']"
  by code_simp

lemma filterItems_subset: "filterItems sf d items = Some kept \<Longrightarrow> set kept \<subseteq> set items"
  by (cases sf) (auto simp: filterItems_showFiles filterItems_dirsOnly split: if_splits)

lemma sortedItemsOf_subset:
  assumes "sortedItemsOf lc sf d items = Some sortedItems"
  shows "set sortedItems \<subseteq> set items"
proof -
  from assms obtain kept where k: "filterItems sf d items = Some kept"
    "sortBy (compareItems lc d) kept = Some sortedItems"
    by (auto simp: sortedItemsOf_def split: option.splits)
  have "set sortedItems = set kept" using k(2) by (rule sortBy_set)
  then show ?thesis using filterItems_subset[OF k(1)] by simp
qed

lemma symbolsFor_no_newline:
  "newline \<notin> set (corner (symbolsFor ua)) \<and> newline \<notin> set (branch (symbolsFor ua))
   \<and> newline \<notin> set (space (symbolsFor ua)) \<and> newline \<notin> set (vertical (symbolsFor ua))"
  by (simp add: symbolsFor_def newline_def)

lemma count_itemLine:
  assumes "newline \<notin> set prefix" "newline \<notin> set item"
  shows "count_list (itemLine (symbolsFor ua) node prefix n index item) newline = 1"
  using assms symbolsFor_no_newline[of ua]
  by (simp add: itemLine_def count_list_notin slash_def newline_def)

lemma sum_list_Suc_upt:
  "(\<Sum>i\<leftarrow>[0..<n]. Suc (g i)) = n + (\<Sum>i\<leftarrow>[0..<n]. g i)"
  by (induction n) simp_all

lemma dangling_link_run:
  "statIsDirectory dangling_link (js ''docs'') = Some True
   \<and> statIsDirectory dangling_link (js ''c.txt'') = Some False
   \<and> statIsDirectory dangling_link (js ''link'') = None
   \<and> readdirSync dangling_link = Some [js ''docs'', js ''link'', js ''c.txt'']"
  by code_simp

lemma three_children_run:
  "buildTree asciiCompare True (symbolsFor True) (- 1) three_children [js ''root''] [] True 0 =
     ([ErrorReadingPath [js ''root'', js ''locked'']],
      js ''|-- docs/'' @ [newline] @ js ''|   '' @ [0x5C] @ js ''-- x'' @ [newline]
      @ js ''|-- locked/'' @ [newline] @ [0x5C] @ js ''-- c.txt'' @ [newline])"
  by code_simp

lemma three_children_filter_sort:
  "filterItems True three_children [js ''docs'', js ''locked'', js ''c.txt'']
     = Some [js ''docs'', js ''locked'', js ''c.txt'']
   \<and> sortBy (compareItems asciiCompare three_children) [js ''docs'', js ''locked'', js ''c.txt'']
     = Some [js ''docs'', js ''locked'', js ''c.txt'']
   \<and> newline \<notin> set ([] :: jsstring)
   \<and> (\<forall>x\<in>set [js ''docs'', js ''locked'', js ''c.txt'']. newline \<notin> set x)"
  by code_simp

lemma lone_link_run:
  "(\<exists>x\<in>set [js ''link'']. statIsDirectory lone_link x = None)
   \<and> readdirSync lone_link = Some [js ''link'']"
  by code_simp

section \<open>Facts about the depth limit\<close>

lemma compareItems_total:
  assumes "statIsDirectory d a \<noteq> None" "statIsDirectory d b \<noteq> None"
  shows "compareItems lc d a b \<noteq> None"
proof -
  from assms obtain ka kb where "statIsDirectory d a = Some ka" "statIsDirectory d b = Some kb"
    by auto
  then show ?thesis by (simp add: compareItems_def)
qed

lemma sortedItemsOf_total:
  assumes "\<forall>x\<in>set items. statIsDirectory node x \<noteq> None"
  shows "\<exists>r. sortedItemsOf lc sf node items = Some r"
proof -
  obtain kept where k: "filterItems sf node items = Some kept"
    using assms by (cases sf) (auto simp: filterItems_showFiles filterItems_dirsOnly)
  have "set kept \<subseteq> set items" using k by (rule filterItems_subset)
  then have "\<forall>x\<in>set kept. \<forall>y\<in>set kept. compareItems lc node x y \<noteq> None"
    using assms compareItems_total by blast
  then obtain r where "sortBy (compareItems lc node) kept = Some r"
    using sortBy_total by blast
  then show ?thesis using k by (simp add: sortedItemsOf_def)
qed

text \<open>One call of the builder, case by case.\<close>

lemma buildTree_unfold:
  "buildTree lc sf sy maxDepth node cur prefix isLast depth =
     (if maxDepth \<noteq> - 1 \<and> depth > maxDepth then ([], [])
      else (case readdirSync node of
              None \<Rightarrow> ([ErrorReadingPath cur], [])
            | Some items \<Rightarrow>
                if \<exists>x\<in>set items. statIsDirectory node x = None
                then ([ErrorReadingPath cur], [])
                else (case sortedItemsOf lc sf node items of
                        None \<Rightarrow> ([ErrorReadingPath cur], [])
                      | Some sortedItems \<Rightarrow>
                          (concat (map (\<lambda>i. fst (subTree lc sf sy maxDepth node cur prefix depth
                                                   (length sortedItems) i (sortedItems ! i)))
                                     [0..<length sortedItems]),
                           concat (map (\<lambda>i. itemLine sy node prefix (length sortedItems) i (sortedItems ! i)
                                            @ snd (subTree lc sf sy maxDepth node cur prefix depth
                                                     (length sortedItems) i (sortedItems ! i)))
                                     [0..<length sortedItems])))))"
proof (cases "maxDepth \<noteq> - 1 \<and> depth > maxDepth")
  case True
  then show ?thesis by (simp add: buildTree_pruned)
next
  case False
  then have g: "maxDepth = - 1 \<or> depth \<le> maxDepth" by auto
  show ?thesis
  proof (cases "readdirSync node")
    case None
    then show ?thesis using False buildTree_readdir_throws[OF g None] by simp
  next
    case (Some items)
    show ?thesis
    proof (cases "\<exists>x\<in>set items. statIsDirectory node x = None")
      case True
      then show ?thesis using False Some buildTree_stat_throws[OF g Some True] by simp
    next
      case nb: False
      then have ok: "\<forall>x\<in>set items. statIsDirectory node x \<noteq> None" by simp
      then obtain r where r: "sortedItemsOf lc sf node items = Some r"
        using sortedItemsOf_total by blast
      have "set r \<subseteq> set items" using r by (rule sortedItemsOf_subset)
      then have okr: "\<forall>x\<in>set r. statIsDirectory node x \<noteq> None" using ok by blast
      show ?thesis
        unfolding buildTree_listing[OF g Some r okr]
        by (simp only: False Some nb r if_False option.case)
    qed
  qed
qed

lemma filterItems_stat_cong:
  assumes "\<And>x. statIsDirectory d x = statIsDirectory d' x"
  shows "filterItems sf d items = filterItems sf d' items"
  by (cases sf) (simp_all add: filterItems_showFiles filterItems_dirsOnly assms)

lemma sortedItemsOf_stat_cong:
  assumes "\<And>x. statIsDirectory d x = statIsDirectory d' x"
  shows "sortedItemsOf lc sf d items = sortedItemsOf lc sf d' items"
proof -
  have "compareItems lc d = compareItems lc d'"
    by (intro ext) (simp add: compareItems_def assms cong: option.case_cong)
  then show ?thesis
    by (simp add: sortedItemsOf_def filterItems_stat_cong[OF assms] split: option.splits)
qed

lemma emptied_stat:
  "(case emptied c of File \<Rightarrow> Some False | Dir es \<Rightarrow> Some True | NoRead \<Rightarrow> Some True | NoStat \<Rightarrow> None)
   = (case c of File \<Rightarrow> Some False | Dir es \<Rightarrow> Some True | NoRead \<Rightarrow> Some True | NoStat \<Rightarrow> None)"
  by (cases c) simp_all

lemma limit_kind:
  "(case limit k c of File \<Rightarrow> Some False | Dir es \<Rightarrow> Some True | NoRead \<Rightarrow> Some True | NoStat \<Rightarrow> None)
   = (case c of File \<Rightarrow> Some False | Dir es \<Rightarrow> Some True | NoRead \<Rightarrow> Some True | NoStat \<Rightarrow> None)"
  by (cases c) simp_all

lemma entry_limit:
  "entry (limit k node) item =
     map_option (\<lambda>child. case k of 0 \<Rightarrow> emptied child | Suc k' \<Rightarrow> limit k' child) (entry node item)"
  by (cases node) (simp_all add: map_of_map)

lemma statIsDirectory_limit: "statIsDirectory (limit k node) item = statIsDirectory node item"
proof (cases "entry node item")
  case None
  then show ?thesis by (simp add: statIsDirectory_def entry_limit)
next
  case (Some child)
  then show ?thesis
    by (cases k) (simp_all add: statIsDirectory_def entry_limit emptied_stat limit_kind)
qed

lemma readdirSync_limit: "readdirSync (limit k node) = readdirSync node"
  by (cases node) (simp_all add: comp_def case_prod_unfold)

lemma statIsDirectory_True_entry:
  assumes "statIsDirectory node item = Some True"
  obtains child where "entry node item = Some child" "emptied child = Dir []" "size child < size node"
proof -
  from assms obtain child where c: "entry node item = Some child"
    by (auto simp: statIsDirectory_def split: option.splits)
  with assms have e: "emptied child = Dir []"
    by (cases child) (simp_all add: statIsDirectory_def)
  from c obtain es where "node = Dir es" "map_of es item = Some child"
    by (cases node) simp_all
  then have "size child < size node" using size_entry_less by blast
  with c e that show ?thesis by blast
qed

lemma buildTree_empty_dir:
  "buildTree lc sf sy (- 1) (Dir []) cur prefix isLast depth = ([], [])"
  by (simp add: buildTree.simps sortedItemsOf_def)

lemma itemLine_stat_cong:
  assumes "\<And>x. statIsDirectory d x = statIsDirectory d' x"
  shows "itemLine sy d prefix n i item = itemLine sy d' prefix n i item"
  by (simp add: itemLine_def assms)

lemma buildTree_limit:
  assumes "0 \<le> maxDepth" "depth \<le> maxDepth"
  shows "buildTree lc sf sy maxDepth node cur prefix isLast depth =
         buildTree lc sf sy (- 1) (limit (nat (maxDepth - depth)) node) cur prefix isLast depth"
  using assms(2)
proof (induction node arbitrary: cur prefix isLast depth rule: measure_induct_rule[where f = size])
  case (less node)
  let ?k = "nat (maxDepth - depth)"
  have g: "(maxDepth \<noteq> - 1 \<and> depth > maxDepth) = False" using less.prems by auto
  have st: "\<And>x. statIsDirectory (limit ?k node) x = statIsDirectory node x"
    by (rule statIsDirectory_limit)
  have so: "\<And>items. sortedItemsOf lc sf (limit ?k node) items = sortedItemsOf lc sf node items"
    by (rule sortedItemsOf_stat_cong) (rule st)
  have il: "\<And>n i item. itemLine sy (limit ?k node) prefix n i item = itemLine sy node prefix n i item"
    by (rule itemLine_stat_cong) (rule st)
  have sub: "subTree lc sf sy maxDepth node cur prefix depth n i item =
             subTree lc sf sy (- 1) (limit ?k node) cur prefix depth n i item" for n i item
  proof (cases "statIsDirectory node item = Some True")
    case False
    then show ?thesis by (simp add: subTree_def statIsDirectory_limit)
  next
    case True
    then obtain child where c: "entry node item = Some child" "emptied child = Dir []"
      "size child < size node"
      by (rule statIsDirectory_True_entry)
    show ?thesis
    proof (cases "depth = maxDepth")
      case True
      then have k: "?k = 0" by simp
      have "buildTree lc sf sy maxDepth child (path_join cur item)
              (prefix @ (if i = n - 1 then space sy else vertical sy)) (i = n - 1) (depth + 1) = ([], [])"
        using True assms(1) by (intro buildTree_pruned) auto
      then show ?thesis
        using \<open>statIsDirectory node item = Some True\<close> c
        by (simp add: subTree_def statIsDirectory_limit entry_limit k buildTree_empty_dir)
    next
      case False
      then have lt: "depth + 1 \<le> maxDepth" using less.prems by simp
      then obtain k' where k: "?k = Suc k'" "k' = nat (maxDepth - (depth + 1))"
        by (cases ?k) auto
      have "buildTree lc sf sy maxDepth child (path_join cur item)
              (prefix @ (if i = n - 1 then space sy else vertical sy)) (i = n - 1) (depth + 1) =
            buildTree lc sf sy (- 1) (limit k' child) (path_join cur item)
              (prefix @ (if i = n - 1 then space sy else vertical sy)) (i = n - 1) (depth + 1)"
        unfolding k(2) using c(3) lt by (rule less.IH)
      then show ?thesis
        using \<open>statIsDirectory node item = Some True\<close> c
        by (simp add: subTree_def statIsDirectory_limit entry_limit k(1))
    qed
  qed
  show ?case
    unfolding buildTree_unfold[of lc sf sy maxDepth node]
      buildTree_unfold[of lc sf sy "- 1" "limit ?k node"]
    by (simp only: g readdirSync_limit st so il sub simp_thms if_False)
qed

lemma buildTree_unlimited_depth:
  "buildTree lc sf sy (- 1) node cur prefix isLast depth =
   buildTree lc sf sy (- 1) node cur prefix isLast depth'"
proof (induction node arbitrary: cur prefix isLast depth depth' rule: measure_induct_rule[where f = size])
  case (less node)
  have sub: "subTree lc sf sy (- 1) node cur prefix depth n i item =
             subTree lc sf sy (- 1) node cur prefix depth' n i item" for n i item
  proof (cases "statIsDirectory node item = Some True")
    case False
    then show ?thesis by (simp add: subTree_def)
  next
    case True
    then obtain child where c: "entry node item = Some child" "emptied child = Dir []"
      "size child < size node"
      by (rule statIsDirectory_True_entry)
    have "buildTree lc sf sy (- 1) child (path_join cur item)
              (prefix @ (if i = n - 1 then space sy else vertical sy)) (i = n - 1) (depth + 1) =
          buildTree lc sf sy (- 1) child (path_join cur item)
              (prefix @ (if i = n - 1 then space sy else vertical sy)) (i = n - 1) (depth' + 1)"
      using c(3) by (rule less.IH)
    then show ?thesis using True c by (simp add: subTree_def)
  qed
  show ?case
    unfolding buildTree_unfold[of lc sf sy "- 1" node cur prefix isLast depth]
      buildTree_unfold[of lc sf sy "- 1" node cur prefix isLast depth']
    by (simp only: sub simp_thms if_False)
qed

lemma one_sub_run:
  "tree asciiCompare one_sub [js ''root''] \<lparr>showFiles = True, useAscii = True\<rparr> 0 =
     ([], [0x5C] @ js ''-- sub/'' @ [newline])
   \<and> tree asciiCompare one_sub [js ''root''] \<lparr>showFiles = True, useAscii = True\<rparr> 1 =
     ([], [0x5C] @ js ''-- sub/'' @ [newline]
          @ js ''    |-- inner/'' @ [newline]
          @ js ''    '' @ [0x5C] @ js ''-- x.txt'' @ [newline])
   \<and> tree asciiCompare one_sub [js ''root''] \<lparr>showFiles = True, useAscii = True\<rparr> (- 1) =
     ([], [0x5C] @ js ''-- sub/'' @ [newline]
          @ js ''    |-- inner/'' @ [newline]
          @ js ''    |   '' @ [0x5C] @ js ''-- deep.txt'' @ [newline]
          @ js ''    '' @ [0x5C] @ js ''-- x.txt'' @ [newline])"
  by code_simp

lemma one_sub_facts:
  "readdirSync one_sub = Some [js ''sub'']
   \<and> sortedItemsOf asciiCompare True one_sub [js ''sub''] = Some [js ''sub'']
   \<and> statIsDirectory one_sub (js ''sub'') \<noteq> None
   \<and> limit (nat (0 - 0)) one_sub = Dir [(js ''sub'', Dir [])]"
  by code_simp

section \<open>Facts about the code units of a rendering\<close>

lemma entry_nameUnits:
  assumes "entry node item = Some child"
  shows "set item \<subseteq> nameUnits node" and "nameUnits child \<subseteq> nameUnits node"
proof -
  from assms obtain es where e: "node = Dir es" "map_of es item = Some child"
    by (cases node) simp_all
  then have "(item, child) \<in> set es" by (simp add: map_of_SomeD)
  then show "set item \<subseteq> nameUnits node" and "nameUnits child \<subseteq> nameUnits node"
    using e(1) by auto
qed

lemma buildTree_snd_cases:
  obtains (empty) "snd (buildTree lc sf sy maxDepth node cur prefix isLast depth) = []"
  | (listing) sortedItems where
      "snd (buildTree lc sf sy maxDepth node cur prefix isLast depth) =
         concat (map (\<lambda>i. itemLine sy node prefix (length sortedItems) i (sortedItems ! i)
                           @ snd (subTree lc sf sy maxDepth node cur prefix depth
                                    (length sortedItems) i (sortedItems ! i)))
                   [0..<length sortedItems])"
      "\<forall>x\<in>set sortedItems. statIsDirectory node x \<noteq> None"
proof (cases "maxDepth \<noteq> - 1 \<and> depth > maxDepth")
  case True
  then show ?thesis using empty by (simp add: buildTree_pruned)
next
  case False
  then have g: "maxDepth = - 1 \<or> depth \<le> maxDepth" by auto
  show ?thesis
  proof (cases "readdirSync node")
    case None
    then show ?thesis using empty buildTree_readdir_throws[OF g None] by simp
  next
    case (Some items)
    show ?thesis
    proof (cases "\<exists>x\<in>set items. statIsDirectory node x = None")
      case True
      then show ?thesis using empty buildTree_stat_throws[OF g Some True] by simp
    next
      case nb: False
      then have ok: "\<forall>x\<in>set items. statIsDirectory node x \<noteq> None" by simp
      then obtain r where r: "sortedItemsOf lc sf node items = Some r"
        using sortedItemsOf_total by blast
      have "set r \<subseteq> set items" using r by (rule sortedItemsOf_subset)
      then have okr: "\<forall>x\<in>set r. statIsDirectory node x \<noteq> None" using ok by blast
      show ?thesis
        using listing[of r] okr buildTree_listing[OF g Some r okr, of sy cur prefix isLast]
        by simp
    qed
  qed
qed

lemma itemLine_units:
  assumes "set item \<subseteq> N"
  shows "set (itemLine sy node prefix n i item) \<subseteq> set prefix \<union> glyphUnits sy \<union> {0x2F, newline} \<union> N"
  using assms by (auto simp: itemLine_def glyphUnits_def slash_def)

lemma buildTree_units:
  "set (snd (buildTree lc sf sy maxDepth node cur prefix isLast depth))
     \<subseteq> set prefix \<union> glyphUnits sy \<union> {0x2F, newline} \<union> nameUnits node"
proof (induction node arbitrary: cur prefix isLast depth rule: measure_induct_rule[where f = size])
  case (less node)
  let ?U = "\<lambda>prefix node. set prefix \<union> glyphUnits sy \<union> {0x2F, newline} \<union> nameUnits node"
  show ?case
  proof (cases rule: buildTree_snd_cases[of lc sf sy maxDepth node cur prefix isLast depth])
    case empty
    then show ?thesis by simp
  next
    case (listing sortedItems)
    let ?f = "\<lambda>i. itemLine sy node prefix (length sortedItems) i (sortedItems ! i)
               @ snd (subTree lc sf sy maxDepth node cur prefix depth
                        (length sortedItems) i (sortedItems ! i))"
    have step: "set (?f i) \<subseteq> ?U prefix node"
      if i: "i < length sortedItems" for i
    proof -
      let ?item = "sortedItems ! i"
      have "statIsDirectory node ?item \<noteq> None" using listing(2) i by simp
      then obtain child where c: "entry node ?item = Some child"
        by (auto simp: statIsDirectory_def split: option.splits)
      have l: "set (itemLine sy node prefix (length sortedItems) i ?item) \<subseteq> ?U prefix node"
        by (rule itemLine_units) (rule entry_nameUnits(1)[OF c])
      have s: "set (snd (subTree lc sf sy maxDepth node cur prefix depth (length sortedItems) i ?item))
                 \<subseteq> ?U prefix node"
      proof (cases "statIsDirectory node ?item = Some True")
        case False
        then show ?thesis by (simp add: subTree_def)
      next
        case True
        from c obtain es where "node = Dir es" "map_of es ?item = Some child"
          by (cases node) simp_all
        then have sz: "size child < size node" using size_entry_less by blast
        let ?p = "prefix @ (if i = length sortedItems - 1 then space sy else vertical sy)"
        have e: "snd (subTree lc sf sy maxDepth node cur prefix depth (length sortedItems) i ?item) =
                 snd (buildTree lc sf sy maxDepth child (path_join cur ?item) ?p
                     (i = length sortedItems - 1) (depth + 1))"
          using True c by (simp add: subTree_def)
        have a: "set (snd (buildTree lc sf sy maxDepth child (path_join cur ?item) ?p
                     (i = length sortedItems - 1) (depth + 1))) \<subseteq> ?U ?p child"
          using sz by (rule less.IH)
        have b: "?U ?p child \<subseteq> ?U prefix node"
          using entry_nameUnits(2)[OF c] by (auto simp: glyphUnits_def)
        show ?thesis unfolding e using a b by (rule subset_trans)
      qed
      show ?thesis using l s by simp
    qed
    show ?thesis
      unfolding listing(1)
    proof
      fix x
      assume "x \<in> set (concat (map ?f [0..<length sortedItems]))"
      then obtain i where "i < length sortedItems" "x \<in> set (?f i)" by auto
      then show "x \<in> ?U prefix node" using step by blast
    qed
  qed
qed

lemma symbolsFor_units:
  "glyphUnits (symbolsFor True) = {0x7C, 0x2D, 0x5C, 0x20}"
  "glyphUnits (symbolsFor False) = {0x2502, 0x251C, 0x2514, 0x2500, 0x20}"
  by (auto simp: glyphUnits_def symbolsFor_def)

lemma my_app_nameUnits:
  "0x2502 \<notin> nameUnits my_app \<and> 0x251C \<notin> nameUnits my_app \<and> 0x2514 \<notin> nameUnits my_app
   \<and> 0x2500 \<notin> nameUnits my_app \<and> 0x7C \<notin> nameUnits my_app \<and> 0x5C \<notin> nameUnits my_app
   \<and> 0x2D \<notin> nameUnits my_app"
  by (simp add: my_app_def js_def)

lemma asciiCompare_my_app:
  "0 < asciiCompare (js ''src'') (js ''public'')
   \<and> asciiCompare (js ''package.json'') (js ''README.md'') \<le> 0
   \<and> asciiCompare (js ''components'') (js ''utils'') \<le> 0
   \<and> 0 < asciiCompare (js ''Header.js'') (js ''Footer.js'')"
  by code_simp

section \<open>Facts about the order of the sorted list\<close>






















section \<open>Facts about the rows of a rendering\<close>

lemma rowText_below:
  "rowText sy (below b r) = (if b then space sy else vertical sy) @ rowText sy r"
  by (cases r) (simp add: rowText_def below_def)

lemma itemLine_rowText:
  "itemLine sy node prefix n i item =
     prefix @ rowText sy ([], i = n - 1, item, statIsDirectory node item = Some True)"
  by (simp add: itemLine_def rowText_def)

lemma concat_map_prefix_below:
  "concat (map (\<lambda>r. (prefix @ (if b then space sy else vertical sy)) @ rowText sy r) rows) =
   concat (map (\<lambda>r. prefix @ rowText sy r) (map (below b) rows))"
  by (induction rows) (simp_all add: rowText_below)

lemma concat_map_concat_map:
  "concat (map h (concat (map F xs))) = concat (map (\<lambda>x. concat (map h (F x))) xs)"
  by (induction xs) simp_all

lemma buildTree_rows:
  "\<exists>rows. \<forall>sy prefix.
     snd (buildTree lc sf sy maxDepth node cur prefix isLast depth) =
       concat (map (\<lambda>r. prefix @ rowText sy r) rows)"
proof (induction node arbitrary: cur isLast depth rule: measure_induct_rule[where f = size])
  case (less node)
  show ?case
  proof (cases "(maxDepth \<noteq> - 1 \<and> depth > maxDepth) \<or> readdirSync node = None
                \<or> (\<exists>x\<in>set (the (readdirSync node)). statIsDirectory node x = None)")
    case True
    have "snd (buildTree lc sf sy maxDepth node cur prefix isLast depth) = []" for sy prefix
    proof (cases "maxDepth \<noteq> - 1 \<and> depth > maxDepth")
      case True
      then show ?thesis by (simp add: buildTree_pruned)
    next
      case False
      then have g: "maxDepth = - 1 \<or> depth \<le> maxDepth" by auto
      show ?thesis
      proof (cases "readdirSync node")
        case None
        then show ?thesis using buildTree_readdir_throws[OF g None] by simp
      next
        case (Some items)
        then have "\<exists>x\<in>set items. statIsDirectory node x = None"
          using \<open>(maxDepth \<noteq> - 1 \<and> depth > maxDepth) \<or> readdirSync node = None
                \<or> (\<exists>x\<in>set (the (readdirSync node)). statIsDirectory node x = None)\<close> False
          by simp
        then show ?thesis using buildTree_stat_throws[OF g Some] by simp
      qed
    qed
    then have "\<forall>sy prefix. snd (buildTree lc sf sy maxDepth node cur prefix isLast depth) =
       concat (map (\<lambda>r. prefix @ rowText sy r) [])" by simp
    then show ?thesis by blast
  next
    case False
    then obtain items where g: "maxDepth = - 1 \<or> depth \<le> maxDepth"
      and rd: "readdirSync node = Some items"
      and ok: "\<forall>x\<in>set items. statIsDirectory node x \<noteq> None"
      by (cases "readdirSync node") auto
    obtain sortedItems where so: "sortedItemsOf lc sf node items = Some sortedItems"
      using sortedItemsOf_total[OF ok] by blast
    have "set sortedItems \<subseteq> set items" using so by (rule sortedItemsOf_subset)
    then have okr: "\<forall>x\<in>set sortedItems. statIsDirectory node x \<noteq> None" using ok by blast
    let ?n = "length sortedItems"
    have sub: "\<exists>rows. \<forall>sy prefix.
        snd (subTree lc sf sy maxDepth node cur prefix depth ?n i (sortedItems ! i)) =
          concat (map (\<lambda>r. prefix @ rowText sy r) (map (below (i = ?n - 1)) rows))" for i
    proof (cases "statIsDirectory node (sortedItems ! i) = Some True")
      case False
      then have "\<forall>sy prefix. snd (subTree lc sf sy maxDepth node cur prefix depth ?n i (sortedItems ! i)) =
          concat (map (\<lambda>r. prefix @ rowText sy r) (map (below (i = ?n - 1)) []))"
        by (simp add: subTree_def)
      then show ?thesis by blast
    next
      case True
      then obtain child where c: "entry node (sortedItems ! i) = Some child"
        "emptied child = Dir []" "size child < size node"
        by (rule statIsDirectory_True_entry)
      from less.IH[OF c(3), of "path_join cur (sortedItems ! i)" "i = ?n - 1" "depth + 1"]
      obtain rows where rows: "\<And>sy prefix.
          snd (buildTree lc sf sy maxDepth child (path_join cur (sortedItems ! i)) prefix
                 (i = ?n - 1) (depth + 1)) = concat (map (\<lambda>r. prefix @ rowText sy r) rows)"
        by blast
      have "snd (subTree lc sf sy maxDepth node cur prefix depth ?n i (sortedItems ! i)) =
          concat (map (\<lambda>r. prefix @ rowText sy r) (map (below (i = ?n - 1)) rows))" for sy prefix
      proof -
        have "snd (subTree lc sf sy maxDepth node cur prefix depth ?n i (sortedItems ! i)) =
              snd (buildTree lc sf sy maxDepth child (path_join cur (sortedItems ! i))
                     (prefix @ (if i = ?n - 1 then space sy else vertical sy))
                     (i = ?n - 1) (depth + 1))"
          using True c(1) by (simp add: subTree_def)
        also have "\<dots> = concat (map (\<lambda>r. (prefix @ (if i = ?n - 1 then space sy else vertical sy))
                                          @ rowText sy r) rows)"
          by (rule rows)
        also have "\<dots> = concat (map (\<lambda>r. prefix @ rowText sy r) (map (below (i = ?n - 1)) rows))"
          by (rule concat_map_prefix_below)
        finally show ?thesis .
      qed
      then show ?thesis by blast
    qed
    then obtain R where R: "\<And>i sy prefix.
        snd (subTree lc sf sy maxDepth node cur prefix depth ?n i (sortedItems ! i)) =
          concat (map (\<lambda>r. prefix @ rowText sy r) (map (below (i = ?n - 1)) (R i)))"
      by metis
    let ?rows = "concat (map (\<lambda>i. ([], i = ?n - 1, sortedItems ! i,
                                     statIsDirectory node (sortedItems ! i) = Some True)
                                  # map (below (i = ?n - 1)) (R i)) [0..<?n])"
    have "snd (buildTree lc sf sy maxDepth node cur prefix isLast depth) =
            concat (map (\<lambda>r. prefix @ rowText sy r) ?rows)" for sy prefix
      unfolding buildTree_listing[OF g rd so okr, of sy cur prefix isLast]
      by (simp add: itemLine_rowText R concat_map_concat_map)
    then show ?thesis by blast
  qed
qed



lemma nested_failure_run:
  "buildTree asciiCompare True (symbolsFor True) (- 1) nested_failure [js ''root''] [] True 0 =
     ([ErrorReadingPath [js ''root'', js ''p'', js ''d'']],
      js ''|-- p/'' @ [newline]
      @ js ''|   |-- d/'' @ [newline]
      @ js ''|   '' @ [0x5C] @ js ''-- s.txt'' @ [newline]
      @ [0x5C] @ js ''-- q/'' @ [newline]
      @ js ''    '' @ [0x5C] @ js ''-- y'' @ [newline])"
  by code_simp

lemma subTree_directory:
  "statIsDirectory node item = Some True \<Longrightarrow> entry node item = Some child \<Longrightarrow>
   subTree lc sf sy maxDepth node cur prefix depth n index item =
     buildTree lc sf sy maxDepth child (path_join cur item)
       (prefix @ (if index = n - 1 then space sy else vertical sy)) (index = n - 1) (depth + 1)"
  by (simp add: subTree_def)

section \<open>The claims\<close>

text \<open>
  C10. The parameter \<open>isLast\<close> of \<open>buildTree\<close> never influences its result: with every
  comparison, option values, directory, path, prefix and depth, the call with
  \<open>isLast = true\<close> and the call with \<open>isLast = false\<close> return the same diagnostics and the
  same string. Whether an entry is drawn as the last sibling is decided inside the call,
  from the index of the entry.
\<close>

theorem buildTree_isLast_irrelevant:
  "buildTree lc sf sy maxDepth node currentPath prefix True depth =
   buildTree lc sf sy maxDepth node currentPath prefix False depth"
  by (simp add: buildTree.simps)

text \<open>
  C9. With any \<open>maxDepth \<le> -2\<close> the builder returns the empty string already at depth 0,
  whatever the directory holds, and logs nothing; so the body that \<open>tree\<close> prints has no
  line. Only \<open>-1\<close> stands for "no limit".
\<close>

theorem buildTree_negative_maxDepth:
  assumes "maxDepth \<le> - 2"
  shows "buildTree lc sf sy maxDepth node currentPath prefix isLast 0 = ([], [])
       \<and> tree lc root absolutePath opts maxDepth = ([], [])"
  using assms by (simp add: buildTree.simps tree_def)

theorem buildTree_negative_maxDepth_witness:
  "(- 2 :: int) \<le> - 2
   \<and> buildTree asciiCompare True (symbolsFor False) (- 2) my_app [js ''my-app''] [] True 0 = ([], [])
   \<and> tree asciiCompare my_app [js ''my-app''] \<lparr>showFiles = True, useAscii = False\<rparr> (- 2) = ([], [])"
  using buildTree_negative_maxDepth [of "- 2" asciiCompare True "symbolsFor False" my_app
      "[js ''my-app'']" "[]" True my_app "[js ''my-app'']" "\<lparr>showFiles = True, useAscii = False\<rparr>"]
  by simp

text \<open>
  C7. With \<open>showFiles\<close> the filter keeps every entry. Without it the filter keeps exactly
  the entries that are directories, in their order, dropping every entry whose kind is
  file (and it throws when an entry cannot be stat-ed); so a directory that holds files
  only yields no line and no diagnostic.
\<close>

theorem filter_showFiles:
  "filterItems True d items = Some items
   \<and> filterItems False d items =
       (if \<forall>x\<in>set items. statIsDirectory d x \<noteq> None
        then Some (filter (\<lambda>x. statIsDirectory d x = Some True) items)
        else None)
   \<and> ((\<forall>e\<in>set es. snd e = File) \<longrightarrow>
        buildTree lc False sy maxDepth (Dir es) currentPath prefix isLast depth = ([], []))"
proof (intro conjI impI)
  show "filterItems True d items = Some items" by (rule filterItems_showFiles)
  show "filterItems False d items =
       (if \<forall>x\<in>set items. statIsDirectory d x \<noteq> None
        then Some (filter (\<lambda>x. statIsDirectory d x = Some True) items)
        else None)" by (rule filterItems_dirsOnly)
next
  assume files: "\<forall>e\<in>set es. snd e = File"
  have st: "\<forall>x\<in>set (map fst es). statIsDirectory (Dir es) x = Some False"
    using statIsDirectory_files[OF files] by blast
  then have "filter (\<lambda>x. statIsDirectory (Dir es) x = Some True) (map fst es) = []"
    by (auto simp: filter_empty_conv)
  moreover have "\<forall>x\<in>set (map fst es). statIsDirectory (Dir es) x \<noteq> None"
    using st by auto
  ultimately have f: "filterItems False (Dir es) (map fst es) = Some []"
    by (auto simp: filterItems_dirsOnly)
  then have so: "sortedItemsOf lc False (Dir es) (map fst es) = Some []"
    by (simp add: sortedItemsOf_def)
  show "buildTree lc False sy maxDepth (Dir es) currentPath prefix isLast depth = ([], [])"
    unfolding buildTree.simps[of lc False sy maxDepth "Dir es" currentPath prefix isLast depth]
    using so by simp
qed

theorem filter_showFiles_witness:
  "snd (js ''b.txt'', File) = File \<and> snd (js ''a.txt'', File) = File
   \<and> filterItems False only_files [js ''b.txt'', js ''a.txt''] = Some []
   \<and> buildTree asciiCompare False (symbolsFor False) (- 1) only_files [js ''root''] [] True 0 = ([], [])"
proof -
  have h: "\<forall>e\<in>set [(js ''b.txt'', File), (js ''a.txt'', File)]. snd e = File" by simp
  have "buildTree asciiCompare False (symbolsFor False) (- 1)
          (Dir [(js ''b.txt'', File), (js ''a.txt'', File)]) [js ''root''] [] True 0 = ([], [])"
    using h filter_showFiles [of only_files "[js ''b.txt'', js ''a.txt'']"
      "[(js ''b.txt'', File), (js ''a.txt'', File)]" asciiCompare "symbolsFor False" "- 1"
      "[js ''root'']" "[]" True 0]
    by blast
  then show ?thesis using only_files_filter by (simp add: only_files_def)
qed

text \<open>
  C4. In a call that lists its directory (the depth guard passes, \<open>readdirSync\<close> and every
  \<open>statSync\<close> succeed) the returned text is, entry by entry of the sorted, filtered list:
  the line \<open>prefix + connector + name\<close>, with \<open>/\<close> appended exactly when the entry is a
  directory, then a newline, then for a directory the text of the recursive call. The
  connector is the corner glyph for the last entry of the list and the branch glyph
  for every other entry; the recursive call runs at \<open>depth + 1\<close> with the prefix extended
  by the space glyph if that entry is the last one and by the vertical glyph otherwise.
  The statement holds for every directory, prefix and depth, hence at every level.
\<close>

theorem buildTree_lines:
  assumes "maxDepth = - 1 \<or> depth \<le> maxDepth"
    and "readdirSync node = Some items"
    and "sortedItemsOf lc sf node items = Some sortedItems"
    and "\<forall>x\<in>set sortedItems. statIsDirectory node x \<noteq> None"
  shows "snd (buildTree lc sf sy maxDepth node currentPath prefix isLast depth) =
     concat (map (\<lambda>index.
         prefix @ (if index = length sortedItems - 1 then corner sy else branch sy)
         @ sortedItems ! index
         @ (if statIsDirectory node (sortedItems ! index) = Some True then slash else [])
         @ [newline]
         @ (if statIsDirectory node (sortedItems ! index) = Some True
            then (case entry node (sortedItems ! index) of
                    None \<Rightarrow> []
                  | Some child \<Rightarrow>
                      snd (buildTree lc sf sy maxDepth child
                             (path_join currentPath (sortedItems ! index))
                             (prefix @ (if index = length sortedItems - 1
                                        then space sy else vertical sy))
                             (index = length sortedItems - 1) (depth + 1)))
            else []))
       [0..<length sortedItems])"
proof -
  have "\<And>index. snd (subTree lc sf sy maxDepth node currentPath prefix depth (length sortedItems)
                        index (sortedItems ! index)) =
        (if statIsDirectory node (sortedItems ! index) = Some True
            then (case entry node (sortedItems ! index) of
                    None \<Rightarrow> []
                  | Some child \<Rightarrow>
                      snd (buildTree lc sf sy maxDepth child
                             (path_join currentPath (sortedItems ! index))
                             (prefix @ (if index = length sortedItems - 1
                                        then space sy else vertical sy))
                             (index = length sortedItems - 1) (depth + 1)))
            else [])"
    by (simp add: subTree_def split: option.splits)
  then show ?thesis
    unfolding buildTree_listing[OF assms, of sy currentPath prefix isLast]
    by (simp add: itemLine_def)
qed

theorem buildTree_lines_witness:
  "((- 1 :: int) = - 1 \<or> (0::int) \<le> - 1)
   \<and> readdirSync three_children = Some [js ''docs'', js ''locked'', js ''c.txt'']
   \<and> sortedItemsOf asciiCompare True three_children [js ''docs'', js ''locked'', js ''c.txt'']
       = Some [js ''docs'', js ''locked'', js ''c.txt'']
   \<and> statIsDirectory three_children (js ''docs'') \<noteq> None
   \<and> statIsDirectory three_children (js ''locked'') \<noteq> None
   \<and> statIsDirectory three_children (js ''c.txt'') \<noteq> None
   \<and> snd (buildTree asciiCompare True (symbolsFor True) (- 1) three_children [js ''root''] [] True 0) =
       js ''|-- docs/'' @ [newline] @ js ''|   '' @ [0x5C] @ js ''-- x'' @ [newline]
       @ js ''|-- locked/'' @ [newline] @ [0x5C] @ js ''-- c.txt'' @ [newline]"
proof -
  have g: "(- 1 :: int) = - 1 \<or> (0::int) \<le> - 1" by simp
  note t = buildTree_lines [OF g three_children_readdir three_children_sorted three_children_stat,
      of "symbolsFor True" "[js ''root'']" "[]" True]
  have "snd (buildTree asciiCompare True (symbolsFor True) (- 1) three_children [js ''root''] [] True 0) =
       js ''|-- docs/'' @ [newline] @ js ''|   '' @ [0x5C] @ js ''-- x'' @ [newline]
       @ js ''|-- locked/'' @ [newline] @ [0x5C] @ js ''-- c.txt'' @ [newline]"
    unfolding t by code_simp
  then show ?thesis
    using g three_children_readdir three_children_sorted three_children_stat by simp
qed

text \<open>
  C3, as the code has it. A throw never leaves \<open>buildTree\<close>: it is a total function whose
  result is a list of diagnostics and a string. The unit of failure is the directory
  whose call caught the throw:
  \<^item> when \<open>readdirSync\<close> of a directory throws, its call logs one diagnostic naming that
    directory and returns the empty string;
  \<^item> when \<open>statSync\<close> of one of its entries throws, the same happens, so the lines of all
    entries of that directory are lost, not only the line of the entry that failed;
  \<^item> in a directory whose own listing succeeds, nothing that happens below is lost or
    takes anything with it: the result is, entry by entry of the sorted, filtered list,
    the line of the entry followed by the whole text of the call made for it
    (\<open>subTree\<close>: the recursive call for a directory, nothing for a file), and the
    diagnostics are those of these calls, in the same order. So every entry gets its
    line, and for every entry that is a directory the text and the diagnostics returned
    by the call for that child, whatever they are, stand in the parent's result, the
    text right after the child's line.
  A directory with one unreadable directory among its three entries renders the lines of
  all three entries (and of what the readable one holds) and logs one diagnostic for
  the unreadable one. With \<open>p\<close> holding an unreadable \<open>d\<close> and a file \<open>s.txt\<close>, beside \<open>q\<close>
  holding \<open>y\<close>, all five lines are rendered and one diagnostic names \<open>d\<close>.
\<close>

theorem buildTree_failure_contained:
  assumes "maxDepth = - 1 \<or> depth \<le> maxDepth"
  shows "(readdirSync node1 = None \<longrightarrow>
            buildTree lc sf sy maxDepth node1 currentPath prefix isLast depth
              = ([ErrorReadingPath currentPath], []))
       \<and> (readdirSync node2 = Some items2 \<longrightarrow> (\<exists>x\<in>set items2. statIsDirectory node2 x = None) \<longrightarrow>
            buildTree lc sf sy maxDepth node2 currentPath prefix isLast depth
              = ([ErrorReadingPath currentPath], []))
       \<and> (readdirSync node3 = Some items3 \<longrightarrow> sortedItemsOf lc sf node3 items3 = Some sortedItems \<longrightarrow>
          (\<forall>x\<in>set sortedItems. statIsDirectory node3 x \<noteq> None) \<longrightarrow>
            buildTree lc sf sy maxDepth node3 currentPath prefix isLast depth =
              (concat (map (\<lambda>i. fst (subTree lc sf sy maxDepth node3 currentPath prefix depth
                                        (length sortedItems) i (sortedItems ! i)))
                         [0..<length sortedItems]),
               concat (map (\<lambda>i. itemLine sy node3 prefix (length sortedItems) i (sortedItems ! i)
                                @ snd (subTree lc sf sy maxDepth node3 currentPath prefix depth
                                         (length sortedItems) i (sortedItems ! i)))
                         [0..<length sortedItems]))
          \<and> (\<forall>index<length sortedItems. \<exists>before after.
               snd (buildTree lc sf sy maxDepth node3 currentPath prefix isLast depth) =
                 before @ itemLine sy node3 prefix (length sortedItems) index (sortedItems ! index) @ after)
          \<and> (\<forall>index<length sortedItems. \<forall>child.
               statIsDirectory node3 (sortedItems ! index) = Some True \<longrightarrow>
               entry node3 (sortedItems ! index) = Some child \<longrightarrow>
               (\<exists>logged_before logged_after before after.
                  buildTree lc sf sy maxDepth node3 currentPath prefix isLast depth =
                    (logged_before
                       @ fst (buildTree lc sf sy maxDepth child (path_join currentPath (sortedItems ! index))
                                (prefix @ (if index = length sortedItems - 1 then space sy else vertical sy))
                                (index = length sortedItems - 1) (depth + 1))
                       @ logged_after,
                     before
                       @ itemLine sy node3 prefix (length sortedItems) index (sortedItems ! index)
                       @ snd (buildTree lc sf sy maxDepth child (path_join currentPath (sortedItems ! index))
                                (prefix @ (if index = length sortedItems - 1 then space sy else vertical sy))
                                (index = length sortedItems - 1) (depth + 1))
                       @ after))))
       \<and> buildTree asciiCompare True (symbolsFor True) (- 1) three_children [js ''root''] [] True 0 =
           ([ErrorReadingPath [js ''root'', js ''locked'']],
            js ''|-- docs/'' @ [newline] @ js ''|   '' @ [0x5C] @ js ''-- x'' @ [newline]
            @ js ''|-- locked/'' @ [newline] @ [0x5C] @ js ''-- c.txt'' @ [newline])
       \<and> buildTree asciiCompare True (symbolsFor True) (- 1) nested_failure [js ''root''] [] True 0 =
           ([ErrorReadingPath [js ''root'', js ''p'', js ''d'']],
            js ''|-- p/'' @ [newline]
            @ js ''|   |-- d/'' @ [newline]
            @ js ''|   '' @ [0x5C] @ js ''-- s.txt'' @ [newline]
            @ [0x5C] @ js ''-- q/'' @ [newline]
            @ js ''    '' @ [0x5C] @ js ''-- y'' @ [newline])"
proof -
  have c1: "readdirSync node1 = None \<longrightarrow>
            buildTree lc sf sy maxDepth node1 currentPath prefix isLast depth
              = ([ErrorReadingPath currentPath], [])"
    using assms by (simp add: buildTree_readdir_throws)
  have c2: "readdirSync node2 = Some items2 \<longrightarrow> (\<exists>x\<in>set items2. statIsDirectory node2 x = None) \<longrightarrow>
            buildTree lc sf sy maxDepth node2 currentPath prefix isLast depth
              = ([ErrorReadingPath currentPath], [])"
  proof (intro impI)
    assume "readdirSync node2 = Some items2" "\<exists>x\<in>set items2. statIsDirectory node2 x = None"
    then show "buildTree lc sf sy maxDepth node2 currentPath prefix isLast depth
              = ([ErrorReadingPath currentPath], [])"
      using assms by (rule buildTree_stat_throws[rotated])
  qed
  let ?n = "length sortedItems"
  let ?d = "\<lambda>i. fst (subTree lc sf sy maxDepth node3 currentPath prefix depth ?n i (sortedItems ! i))"
  let ?f = "\<lambda>i. itemLine sy node3 prefix ?n i (sortedItems ! i)
                 @ snd (subTree lc sf sy maxDepth node3 currentPath prefix depth ?n i (sortedItems ! i))"
  let ?b = "buildTree lc sf sy maxDepth node3 currentPath prefix isLast depth"
  have c3: "readdirSync node3 = Some items3 \<longrightarrow> sortedItemsOf lc sf node3 items3 = Some sortedItems \<longrightarrow>
          (\<forall>x\<in>set sortedItems. statIsDirectory node3 x \<noteq> None) \<longrightarrow>
            ?b = (concat (map ?d [0..<?n]), concat (map ?f [0..<?n]))
          \<and> (\<forall>index<?n. \<exists>before after.
               snd ?b = before @ itemLine sy node3 prefix ?n index (sortedItems ! index) @ after)
          \<and> (\<forall>index<?n. \<forall>child.
               statIsDirectory node3 (sortedItems ! index) = Some True \<longrightarrow>
               entry node3 (sortedItems ! index) = Some child \<longrightarrow>
               (\<exists>logged_before logged_after before after.
                  ?b =
                    (logged_before
                       @ fst (buildTree lc sf sy maxDepth child (path_join currentPath (sortedItems ! index))
                                (prefix @ (if index = ?n - 1 then space sy else vertical sy))
                                (index = ?n - 1) (depth + 1))
                       @ logged_after,
                     before
                       @ itemLine sy node3 prefix ?n index (sortedItems ! index)
                       @ snd (buildTree lc sf sy maxDepth child (path_join currentPath (sortedItems ! index))
                                (prefix @ (if index = ?n - 1 then space sy else vertical sy))
                                (index = ?n - 1) (depth + 1))
                       @ after)))"
  proof (intro impI conjI allI)
    assume a: "readdirSync node3 = Some items3" "sortedItemsOf lc sf node3 items3 = Some sortedItems"
      "\<forall>x\<in>set sortedItems. statIsDirectory node3 x \<noteq> None"
    show eq: "?b = (concat (map ?d [0..<?n]), concat (map ?f [0..<?n]))"
      by (rule buildTree_listing[OF assms a])
    {
      fix index assume i: "index < ?n"
      have "snd ?b = concat (map ?f [0..<?n])" unfolding eq by simp
      also have "\<dots> = concat (map ?f [0..<index])
          @ itemLine sy node3 prefix ?n index (sortedItems ! index)
          @ (snd (subTree lc sf sy maxDepth node3 currentPath prefix depth ?n index (sortedItems ! index))
             @ concat (map ?f [Suc index..<?n]))"
        using concat_map_split[OF i, of ?f] by simp
      finally show "\<exists>before after.
               snd ?b = before @ itemLine sy node3 prefix ?n index (sortedItems ! index) @ after"
        by blast
    }
    {
      fix index child
      assume i: "index < ?n"
        and sd: "statIsDirectory node3 (sortedItems ! index) = Some True"
        and en: "entry node3 (sortedItems ! index) = Some child"
      let ?c = "buildTree lc sf sy maxDepth child (path_join currentPath (sortedItems ! index))
                  (prefix @ (if index = ?n - 1 then space sy else vertical sy))
                  (index = ?n - 1) (depth + 1)"
      have st: "subTree lc sf sy maxDepth node3 currentPath prefix depth ?n index (sortedItems ! index) = ?c"
        using sd en by (rule subTree_directory)
      have d: "concat (map ?d [0..<?n]) =
                 concat (map ?d [0..<index]) @ fst ?c @ concat (map ?d [Suc index..<?n])"
        using concat_map_split[OF i, of ?d] by (simp only: st)
      have f: "concat (map ?f [0..<?n]) =
                 concat (map ?f [0..<index])
                 @ itemLine sy node3 prefix ?n index (sortedItems ! index) @ snd ?c
                 @ concat (map ?f [Suc index..<?n])"
        using concat_map_split[OF i, of ?f] by (simp only: st append_assoc)
      have "?b = (concat (map ?d [0..<index]) @ fst ?c @ concat (map ?d [Suc index..<?n]),
                  concat (map ?f [0..<index])
                  @ itemLine sy node3 prefix ?n index (sortedItems ! index) @ snd ?c
                  @ concat (map ?f [Suc index..<?n]))"
        unfolding eq using d f by (simp only:)
      then show "\<exists>logged_before logged_after before after.
                  ?b = (logged_before @ fst ?c @ logged_after,
                        before @ itemLine sy node3 prefix ?n index (sortedItems ! index) @ snd ?c @ after)"
        by blast
    }
  qed
  note c4 = three_children_run
  note c5 = nested_failure_run
  show ?thesis using c1 c2 c3 c4 c5 by (intro conjI)
qed

theorem buildTree_failure_contained_witness:
  "((- 1 :: int) = - 1 \<or> (0::int) \<le> - 1)
   \<and> readdirSync NoRead = None
   \<and> buildTree asciiCompare True (symbolsFor True) (- 1) NoRead [js ''root''] [] True 0
        = ([ErrorReadingPath [js ''root'']], [])
   \<and> readdirSync dangling_link = Some [js ''docs'', js ''link'', js ''c.txt'']
   \<and> (\<exists>x\<in>set [js ''docs'', js ''link'', js ''c.txt'']. statIsDirectory dangling_link x = None)
   \<and> buildTree asciiCompare True (symbolsFor True) (- 1) dangling_link [js ''root''] [] True 0
        = ([ErrorReadingPath [js ''root'']], [])
   \<and> readdirSync three_children = Some [js ''docs'', js ''locked'', js ''c.txt'']
   \<and> sortedItemsOf asciiCompare True three_children [js ''docs'', js ''locked'', js ''c.txt'']
        = Some [js ''docs'', js ''locked'', js ''c.txt'']
   \<and> statIsDirectory three_children (js ''docs'') \<noteq> None
   \<and> statIsDirectory three_children (js ''locked'') \<noteq> None
   \<and> statIsDirectory three_children (js ''c.txt'') \<noteq> None
   \<and> (2::nat) < length [js ''docs'', js ''locked'', js ''c.txt'']
   \<and> (\<exists>before after.
         snd (buildTree asciiCompare True (symbolsFor True) (- 1) three_children [js ''root''] [] True 0) =
           before @ itemLine (symbolsFor True) three_children [] (length [js ''docs'', js ''locked'', js ''c.txt''])
                      2 ([js ''docs'', js ''locked'', js ''c.txt''] ! 2) @ after)
   \<and> (0::nat) < length [js ''docs'', js ''locked'', js ''c.txt'']
   \<and> statIsDirectory three_children ([js ''docs'', js ''locked'', js ''c.txt''] ! 0) = Some True
   \<and> entry three_children ([js ''docs'', js ''locked'', js ''c.txt''] ! 0) = Some (Dir [(js ''x'', File)])
   \<and> (\<exists>logged_before logged_after before after.
         buildTree asciiCompare True (symbolsFor True) (- 1) three_children [js ''root''] [] True 0 =
           (logged_before
              @ fst (buildTree asciiCompare True (symbolsFor True) (- 1) (Dir [(js ''x'', File)])
                       (path_join [js ''root''] ([js ''docs'', js ''locked'', js ''c.txt''] ! 0))
                       ([] @ (if (0::nat) = length [js ''docs'', js ''locked'', js ''c.txt''] - 1
                              then space (symbolsFor True) else vertical (symbolsFor True)))
                       ((0::nat) = length [js ''docs'', js ''locked'', js ''c.txt''] - 1) (0 + 1))
              @ logged_after,
            before
              @ itemLine (symbolsFor True) three_children [] (length [js ''docs'', js ''locked'', js ''c.txt''])
                  0 ([js ''docs'', js ''locked'', js ''c.txt''] ! 0)
              @ snd (buildTree asciiCompare True (symbolsFor True) (- 1) (Dir [(js ''x'', File)])
                       (path_join [js ''root''] ([js ''docs'', js ''locked'', js ''c.txt''] ! 0))
                       ([] @ (if (0::nat) = length [js ''docs'', js ''locked'', js ''c.txt''] - 1
                              then space (symbolsFor True) else vertical (symbolsFor True)))
                       ((0::nat) = length [js ''docs'', js ''locked'', js ''c.txt''] - 1) (0 + 1))
              @ after))
   \<and> snd (buildTree asciiCompare True (symbolsFor True) (- 1) (Dir [(js ''x'', File)])
            [js ''root'', js ''docs''] (vertical (symbolsFor True)) False 1)
        = js ''|   '' @ [0x5C] @ js ''-- x'' @ [newline]"
proof -
  have g: "(- 1 :: int) = - 1 \<or> (0::int) \<le> - 1" by simp
  have r1: "readdirSync NoRead = None" by simp
  have r2: "readdirSync dangling_link = Some [js ''docs'', js ''link'', js ''c.txt'']"
    using dangling_link_run by blast
  have s2: "\<exists>x\<in>set [js ''docs'', js ''link'', js ''c.txt'']. statIsDirectory dangling_link x = None"
    using dangling_link_run by simp
  note t = buildTree_failure_contained [OF g, of NoRead asciiCompare True "symbolsFor True"
      "[js ''root'']" "[]" True dangling_link "[js ''docs'', js ''link'', js ''c.txt'']"
      three_children "[js ''docs'', js ''locked'', js ''c.txt'']" "[js ''docs'', js ''locked'', js ''c.txt'']"]
  have i: "(2::nat) < length [js ''docs'', js ''locked'', js ''c.txt'']" by simp
  have j: "(0::nat) < length [js ''docs'', js ''locked'', js ''c.txt'']" by simp
  have sd: "statIsDirectory three_children ([js ''docs'', js ''locked'', js ''c.txt''] ! 0) = Some True"
    by code_simp
  have en: "entry three_children ([js ''docs'', js ''locked'', js ''c.txt''] ! 0) = Some (Dir [(js ''x'', File)])"
    by code_simp
  have x: "snd (buildTree asciiCompare True (symbolsFor True) (- 1) (Dir [(js ''x'', File)])
            [js ''root'', js ''docs''] (vertical (symbolsFor True)) False 1)
        = js ''|   '' @ [0x5C] @ js ''-- x'' @ [newline]"
    by code_simp
  have a: "buildTree asciiCompare True (symbolsFor True) (- 1) NoRead [js ''root''] [] True 0
        = ([ErrorReadingPath [js ''root'']], [])"
    using t r1 by blast
  have b: "buildTree asciiCompare True (symbolsFor True) (- 1) dangling_link [js ''root''] [] True 0
        = ([ErrorReadingPath [js ''root'']], [])"
    using t r2 s2 by blast
  from t have t3: "readdirSync three_children = Some [js ''docs'', js ''locked'', js ''c.txt''] \<longrightarrow>
      sortedItemsOf asciiCompare True three_children [js ''docs'', js ''locked'', js ''c.txt'']
        = Some [js ''docs'', js ''locked'', js ''c.txt''] \<longrightarrow>
      (\<forall>x\<in>set [js ''docs'', js ''locked'', js ''c.txt'']. statIsDirectory three_children x \<noteq> None) \<longrightarrow>
      (\<forall>index<length [js ''docs'', js ''locked'', js ''c.txt'']. \<exists>before after.
         snd (buildTree asciiCompare True (symbolsFor True) (- 1) three_children [js ''root''] [] True 0) =
           before @ itemLine (symbolsFor True) three_children [] (length [js ''docs'', js ''locked'', js ''c.txt''])
                      index ([js ''docs'', js ''locked'', js ''c.txt''] ! index) @ after)
      \<and> (\<forall>index<length [js ''docs'', js ''locked'', js ''c.txt'']. \<forall>child.
           statIsDirectory three_children ([js ''docs'', js ''locked'', js ''c.txt''] ! index) = Some True \<longrightarrow>
           entry three_children ([js ''docs'', js ''locked'', js ''c.txt''] ! index) = Some child \<longrightarrow>
           (\<exists>logged_before logged_after before after.
              buildTree asciiCompare True (symbolsFor True) (- 1) three_children [js ''root''] [] True 0 =
                (logged_before
                   @ fst (buildTree asciiCompare True (symbolsFor True) (- 1) child
                            (path_join [js ''root''] ([js ''docs'', js ''locked'', js ''c.txt''] ! index))
                            ([] @ (if index = length [js ''docs'', js ''locked'', js ''c.txt''] - 1
                                   then space (symbolsFor True) else vertical (symbolsFor True)))
                            (index = length [js ''docs'', js ''locked'', js ''c.txt''] - 1) (0 + 1))
                   @ logged_after,
                 before
                   @ itemLine (symbolsFor True) three_children [] (length [js ''docs'', js ''locked'', js ''c.txt''])
                       index ([js ''docs'', js ''locked'', js ''c.txt''] ! index)
                   @ snd (buildTree asciiCompare True (symbolsFor True) (- 1) child
                            (path_join [js ''root''] ([js ''docs'', js ''locked'', js ''c.txt''] ! index))
                            ([] @ (if index = length [js ''docs'', js ''locked'', js ''c.txt''] - 1
                                   then space (symbolsFor True) else vertical (symbolsFor True)))
                            (index = length [js ''docs'', js ''locked'', js ''c.txt''] - 1) (0 + 1))
                   @ after)))"
    by blast
  note u = t3[THEN mp, THEN mp, THEN mp, OF three_children_readdir three_children_sorted three_children_stat]
  have c: "\<exists>before after.
         snd (buildTree asciiCompare True (symbolsFor True) (- 1) three_children [js ''root''] [] True 0) =
           before @ itemLine (symbolsFor True) three_children [] (length [js ''docs'', js ''locked'', js ''c.txt''])
                      2 ([js ''docs'', js ''locked'', js ''c.txt''] ! 2) @ after"
    using u[THEN conjunct1] i by blast
  have d: "\<exists>logged_before logged_after before after.
         buildTree asciiCompare True (symbolsFor True) (- 1) three_children [js ''root''] [] True 0 =
           (logged_before
              @ fst (buildTree asciiCompare True (symbolsFor True) (- 1) (Dir [(js ''x'', File)])
                       (path_join [js ''root''] ([js ''docs'', js ''locked'', js ''c.txt''] ! 0))
                       ([] @ (if (0::nat) = length [js ''docs'', js ''locked'', js ''c.txt''] - 1
                              then space (symbolsFor True) else vertical (symbolsFor True)))
                       ((0::nat) = length [js ''docs'', js ''locked'', js ''c.txt''] - 1) (0 + 1))
              @ logged_after,
            before
              @ itemLine (symbolsFor True) three_children [] (length [js ''docs'', js ''locked'', js ''c.txt''])
                  0 ([js ''docs'', js ''locked'', js ''c.txt''] ! 0)
              @ snd (buildTree asciiCompare True (symbolsFor True) (- 1) (Dir [(js ''x'', File)])
                       (path_join [js ''root''] ([js ''docs'', js ''locked'', js ''c.txt''] ! 0))
                       ([] @ (if (0::nat) = length [js ''docs'', js ''locked'', js ''c.txt''] - 1
                              then space (symbolsFor True) else vertical (symbolsFor True)))
                       ((0::nat) = length [js ''docs'', js ''locked'', js ''c.txt''] - 1) (0 + 1))
              @ after)"
    using u[THEN conjunct2, THEN spec, THEN mp, OF j, THEN spec, THEN mp, THEN mp, OF sd en] .
  have st: "statIsDirectory three_children (js ''docs'') \<noteq> None
   \<and> statIsDirectory three_children (js ''locked'') \<noteq> None
   \<and> statIsDirectory three_children (js ''c.txt'') \<noteq> None"
    using three_children_stat by simp
  show ?thesis
    using g r1 a r2 s2 b three_children_readdir three_children_sorted st i c j sd en d x
    by (intro conjI) blast+
qed

text \<open>
  The sentence of C3 as it is written fails where \<open>statSync\<close> of an entry throws: with a
  dangling link among three entries the whole listing of the directory is lost, the
  lines of the two siblings of the link included.
\<close>

theorem buildTree_stat_failure_counterexample:
  "statIsDirectory dangling_link (js ''docs'') = Some True
   \<and> statIsDirectory dangling_link (js ''c.txt'') = Some False
   \<and> statIsDirectory dangling_link (js ''link'') = None
   \<and> buildTree asciiCompare True (symbolsFor False) (- 1) dangling_link [js ''root''] [] True 0
       = ([ErrorReadingPath [js ''root'']], [])"
  by code_simp

text \<open>
  C6, as the code has it. Take a call that lists its directory to the end: the depth
  guard passes, \<open>readdirSync\<close> succeeds, the filter keeps the entries \<open>kept\<close>, the sort
  orders them as \<open>sortedItems\<close>, and every \<open>statSync\<close> of the loop succeeds. With no
  newline in the prefix or in a name, the number of lines in its result (the number of
  newlines) is the number of entries that survived the filter plus the sum, over the
  entries, of the number of lines of the recursive call made for the entry (a call is
  made for directories only, \<open>subTree\<close> is empty for a file). A call in which a
  \<open>statSync\<close> throws returns no line at all, however many entries survived the filter.
\<close>

theorem buildTree_line_count:
  assumes "maxDepth = - 1 \<or> depth \<le> maxDepth"
    and "readdirSync node = Some items"
    and "filterItems sf node items = Some kept"
    and "sortBy (compareItems lc node) kept = Some sortedItems"
    and "\<forall>x\<in>set sortedItems. statIsDirectory node x \<noteq> None"
    and "newline \<notin> set prefix"
    and "\<forall>x\<in>set items. newline \<notin> set x"
  shows "count_list (snd (buildTree lc sf (symbolsFor ua) maxDepth node currentPath prefix isLast depth))
           newline =
         length kept +
         (\<Sum>index\<leftarrow>[0..<length sortedItems].
            count_list (snd (subTree lc sf (symbolsFor ua) maxDepth node currentPath prefix depth
                               (length sortedItems) index (sortedItems ! index))) newline)
       \<and> ((\<exists>x\<in>set items'. statIsDirectory node' x = None) \<longrightarrow> readdirSync node' = Some items' \<longrightarrow>
         count_list (snd (buildTree lc sf (symbolsFor ua) maxDepth node' currentPath prefix isLast depth))
           newline = 0)"
proof (intro conjI impI)
  have so: "sortedItemsOf lc sf node items = Some sortedItems"
    using assms(3,4) by (simp add: sortedItemsOf_def)
  have len: "length sortedItems = length kept" using assms(4) by (rule sortBy_length)
  have sub: "set sortedItems \<subseteq> set items" using so by (rule sortedItemsOf_subset)
  let ?g = "\<lambda>index. count_list (snd (subTree lc sf (symbolsFor ua) maxDepth node currentPath prefix depth
                               (length sortedItems) index (sortedItems ! index))) newline"
  let ?f = "\<lambda>i. itemLine (symbolsFor ua) node prefix (length sortedItems) i (sortedItems ! i)
                 @ snd (subTree lc sf (symbolsFor ua) maxDepth node currentPath prefix depth
                          (length sortedItems) i (sortedItems ! i))"
  have one: "count_list (itemLine (symbolsFor ua) node prefix (length sortedItems) i (sortedItems ! i))
               newline = Suc 0" if "i < length sortedItems" for i
  proof -
    have "sortedItems ! i \<in> set items" using that sub by auto
    then have "newline \<notin> set (sortedItems ! i)" using assms(7) by blast
    then show ?thesis using count_itemLine[OF assms(6)] by simp
  qed
  have "count_list (snd (buildTree lc sf (symbolsFor ua) maxDepth node currentPath prefix isLast depth)) newline
          = count_list (concat (map ?f [0..<length sortedItems])) newline"
    unfolding buildTree_listing[OF assms(1,2) so assms(5), of "symbolsFor ua" currentPath prefix isLast]
    by simp
  also have "\<dots> = (\<Sum>i\<leftarrow>[0..<length sortedItems]. count_list (?f i) newline)"
    by (simp add: count_list_concat comp_def)
  also have "\<dots> = (\<Sum>i\<leftarrow>[0..<length sortedItems]. Suc (?g i))"
    by (rule arg_cong[where f = sum_list], rule map_cong) (simp_all add: one)
  also have "\<dots> = length sortedItems + (\<Sum>i\<leftarrow>[0..<length sortedItems]. ?g i)"
    by (rule sum_list_Suc_upt)
  finally show "count_list (snd (buildTree lc sf (symbolsFor ua) maxDepth node currentPath prefix isLast depth))
           newline = length kept + (\<Sum>index\<leftarrow>[0..<length sortedItems]. ?g index)"
    using len by simp
next
  assume "\<exists>x\<in>set items'. statIsDirectory node' x = None" "readdirSync node' = Some items'"
  then show "count_list (snd (buildTree lc sf (symbolsFor ua) maxDepth node' currentPath prefix isLast depth))
           newline = 0"
    using buildTree_stat_throws[OF assms(1), of node' items' lc sf "symbolsFor ua" currentPath prefix isLast]
    by simp
qed

theorem buildTree_line_count_witness:
  "((- 1 :: int) = - 1 \<or> (0::int) \<le> - 1)
   \<and> readdirSync three_children = Some [js ''docs'', js ''locked'', js ''c.txt'']
   \<and> filterItems True three_children [js ''docs'', js ''locked'', js ''c.txt'']
       = Some [js ''docs'', js ''locked'', js ''c.txt'']
   \<and> sortBy (compareItems asciiCompare three_children) [js ''docs'', js ''locked'', js ''c.txt'']
       = Some [js ''docs'', js ''locked'', js ''c.txt'']
   \<and> statIsDirectory three_children (js ''docs'') \<noteq> None
   \<and> statIsDirectory three_children (js ''locked'') \<noteq> None
   \<and> statIsDirectory three_children (js ''c.txt'') \<noteq> None
   \<and> newline \<notin> set ([] :: jsstring)
   \<and> newline \<notin> set (js ''docs'') \<and> newline \<notin> set (js ''locked'') \<and> newline \<notin> set (js ''c.txt'')
   \<and> count_list (snd (buildTree asciiCompare True (symbolsFor True) (- 1) three_children
                          [js ''root''] [] True 0)) newline = 4
   \<and> (\<exists>x\<in>set [js ''link'']. statIsDirectory lone_link x = None)
   \<and> readdirSync lone_link = Some [js ''link'']
   \<and> count_list (snd (buildTree asciiCompare True (symbolsFor True) (- 1) lone_link
                          [js ''root''] [] True 0)) newline = 0"
proof -
  have g: "(- 1 :: int) = - 1 \<or> (0::int) \<le> - 1" by simp
  note fs = three_children_filter_sort
  note t = buildTree_line_count [where node' = lone_link and items' = "[js ''link'']" and ua = True
      and currentPath = "[js ''root'']" and isLast = True,
      OF g three_children_readdir fs[THEN conjunct1]
      fs[THEN conjunct2, THEN conjunct1] three_children_stat
      fs[THEN conjunct2, THEN conjunct2, THEN conjunct1]
      fs[THEN conjunct2, THEN conjunct2, THEN conjunct2]]
  have a: "count_list (snd (buildTree asciiCompare True (symbolsFor True) (- 1) three_children
                          [js ''root''] [] True 0)) newline = 4"
    unfolding t[THEN conjunct1] by code_simp
  have b: "count_list (snd (buildTree asciiCompare True (symbolsFor True) (- 1) lone_link
                          [js ''root''] [] True 0)) newline = 0"
    using t[THEN conjunct2] lone_link_run by blast
  show ?thesis
    using g three_children_readdir fs three_children_stat a b lone_link_run by simp
qed

text \<open>
  The sentence of C6 as it is written fails for a directory that holds one dangling link,
  rendered with \<open>showFiles\<close>: the link survives the filter, which does not stat it, and the
  sort of one item does not either; the \<open>statSync\<close> of the loop throws, and the call returns
  no line where the sentence counts one.
\<close>

theorem buildTree_line_count_counterexample:
  "readdirSync lone_link = Some [js ''link'']
   \<and> filterItems True lone_link [js ''link''] = Some [js ''link'']
   \<and> sortBy (compareItems asciiCompare lone_link) [js ''link''] = Some [js ''link'']
   \<and> count_list (snd (buildTree asciiCompare True (symbolsFor False) (- 1) lone_link
                          [js ''root''] [] True 0)) newline = 0
   \<and> count_list (snd (buildTree asciiCompare True (symbolsFor False) (- 1) lone_link
                          [js ''root''] [] True 0)) newline
       \<noteq> length [js ''link''] +
         (\<Sum>index\<leftarrow>[0..<length [js ''link'']].
            count_list (snd (subTree asciiCompare True (symbolsFor False) (- 1) lone_link [js ''root''] [] 0
                               (length [js ''link'']) index ([js ''link''] ! index))) newline)"
  by code_simp

text \<open>
  C2. Let \<open>maxDepth \<ge> 0\<close>, the root's own entries being the entries of depth 0.
  \<^item> A call at a depth up to \<open>maxDepth\<close> returns what the unlimited builder (\<open>maxDepth = -1\<close>)
    returns on the directory cut by \<open>limit\<close>: every entry down to depth \<open>maxDepth\<close> is
    still there, and the directories of depth \<open>maxDepth\<close> are listed as if they were empty.
  \<^item> A call at depth \<open>maxDepth\<close> that lists its directory returns the lines of the entries
    of that directory and nothing below them.
  \<^item> A call at a depth beyond \<open>maxDepth\<close> returns no line and reads nothing.
  \<^item> With the sentinel \<open>-1\<close> the depth plays no role in the result: nothing is pruned.
  With \<open>maxDepth = 0\<close> a directory with one subdirectory that has entries of its own
  renders the line of the subdirectory only; with \<open>maxDepth = 1\<close> one level more, and with
  \<open>-1\<close> all of it.
\<close>

theorem buildTree_maxDepth:
  assumes "0 \<le> maxDepth"
  shows "(depth \<le> maxDepth \<longrightarrow>
            buildTree lc sf sy maxDepth node cur prefix isLast depth =
            buildTree lc sf sy (- 1) (limit (nat (maxDepth - depth)) node) cur prefix isLast depth)
       \<and> (readdirSync node = Some items \<longrightarrow> sortedItemsOf lc sf node items = Some sortedItems \<longrightarrow>
          (\<forall>x\<in>set sortedItems. statIsDirectory node x \<noteq> None) \<longrightarrow>
            snd (buildTree lc sf sy maxDepth node cur prefix isLast maxDepth) =
            concat (map (\<lambda>index. itemLine sy node prefix (length sortedItems) index (sortedItems ! index))
                      [0..<length sortedItems]))
       \<and> (maxDepth < depth' \<longrightarrow>
            buildTree lc sf sy maxDepth node' cur prefix isLast depth' = ([], []))
       \<and> buildTree lc sf sy (- 1) node cur prefix isLast depth =
          buildTree lc sf sy (- 1) node cur prefix isLast depth''
       \<and> tree asciiCompare one_sub [js ''root''] \<lparr>showFiles = True, useAscii = True\<rparr> 0 =
           ([], [0x5C] @ js ''-- sub/'' @ [newline])
       \<and> tree asciiCompare one_sub [js ''root''] \<lparr>showFiles = True, useAscii = True\<rparr> 1 =
           ([], [0x5C] @ js ''-- sub/'' @ [newline]
                @ js ''    |-- inner/'' @ [newline]
                @ js ''    '' @ [0x5C] @ js ''-- x.txt'' @ [newline])
       \<and> tree asciiCompare one_sub [js ''root''] \<lparr>showFiles = True, useAscii = True\<rparr> (- 1) =
           ([], [0x5C] @ js ''-- sub/'' @ [newline]
                @ js ''    |-- inner/'' @ [newline]
                @ js ''    |   '' @ [0x5C] @ js ''-- deep.txt'' @ [newline]
                @ js ''    '' @ [0x5C] @ js ''-- x.txt'' @ [newline])"
proof -
  have a: "depth \<le> maxDepth \<longrightarrow>
            buildTree lc sf sy maxDepth node cur prefix isLast depth =
            buildTree lc sf sy (- 1) (limit (nat (maxDepth - depth)) node) cur prefix isLast depth"
    using buildTree_limit[OF assms] by blast
  have b: "snd (buildTree lc sf sy maxDepth node cur prefix isLast maxDepth) =
            concat (map (\<lambda>index. itemLine sy node prefix (length sortedItems) index (sortedItems ! index))
                      [0..<length sortedItems])"
    if h: "readdirSync node = Some items" "sortedItemsOf lc sf node items = Some sortedItems"
      "\<forall>x\<in>set sortedItems. statIsDirectory node x \<noteq> None"
  proof -
    have g: "maxDepth = - 1 \<or> maxDepth \<le> maxDepth" by simp
    have "buildTree lc sf sy maxDepth child p q l (maxDepth + 1) = ([], [])" for child p q l
      using assms by (intro buildTree_pruned) auto
    then have "snd (subTree lc sf sy maxDepth node cur prefix maxDepth n i item) = []" for n i item
      by (simp add: subTree_def split: option.splits)
    then show ?thesis
      unfolding buildTree_listing[OF g h, of sy cur prefix isLast] by simp
  qed
  have c: "maxDepth < depth' \<longrightarrow>
            buildTree lc sf sy maxDepth node' cur prefix isLast depth' = ([], [])"
    using assms by (auto intro!: buildTree_pruned)
  have d: "buildTree lc sf sy (- 1) node cur prefix isLast depth =
          buildTree lc sf sy (- 1) node cur prefix isLast depth''"
    by (rule buildTree_unlimited_depth)
  show ?thesis
    using a b c d one_sub_run by blast
qed

theorem buildTree_maxDepth_witness:
  "(0::int) \<le> 0
   \<and> (0::int) \<le> 0
   \<and> buildTree asciiCompare True (symbolsFor True) 0 one_sub [js ''root''] [] True 0 =
       buildTree asciiCompare True (symbolsFor True) (- 1) (Dir [(js ''sub'', Dir [])]) [js ''root''] [] True 0
   \<and> readdirSync one_sub = Some [js ''sub'']
   \<and> sortedItemsOf asciiCompare True one_sub [js ''sub''] = Some [js ''sub'']
   \<and> statIsDirectory one_sub (js ''sub'') \<noteq> None
   \<and> snd (buildTree asciiCompare True (symbolsFor True) 0 one_sub [js ''root''] [] True 0) =
       [0x5C] @ js ''-- sub/'' @ [newline]
   \<and> (0::int) < 1
   \<and> buildTree asciiCompare True (symbolsFor True) 0 (Dir [(js ''x.txt'', File)]) [js ''root''] [] True 1
       = ([], [])"
proof -
  have g: "(0::int) \<le> 0" by simp
  note f = one_sub_facts
  have st: "\<forall>x\<in>set [js ''sub'']. statIsDirectory one_sub x \<noteq> None" using f by simp
  note t = buildTree_maxDepth [OF g, where depth = 0 and lc = asciiCompare and sf = True
      and sy = "symbolsFor True" and node = one_sub and cur = "[js ''root'']" and prefix = "[]"
      and isLast = True and items = "[js ''sub'']" and sortedItems = "[js ''sub'']"
      and depth' = 1 and node' = "Dir [(js ''x.txt'', File)]"]
  have a: "buildTree asciiCompare True (symbolsFor True) 0 one_sub [js ''root''] [] True 0 =
       buildTree asciiCompare True (symbolsFor True) (- 1) (Dir [(js ''sub'', Dir [])]) [js ''root''] [] True 0"
    using t g f by simp
  have b0: "snd (buildTree asciiCompare True (symbolsFor True) 0 one_sub [js ''root''] [] True 0) =
       concat (map (\<lambda>index. itemLine (symbolsFor True) one_sub [] (length [js ''sub'']) index ([js ''sub''] ! index))
                      [0..<length [js ''sub'']])"
    using t f st by blast
  have b: "snd (buildTree asciiCompare True (symbolsFor True) 0 one_sub [js ''root''] [] True 0) =
       [0x5C] @ js ''-- sub/'' @ [newline]"
    unfolding b0 by code_simp
  have c: "buildTree asciiCompare True (symbolsFor True) 0 (Dir [(js ''x.txt'', File)]) [js ''root''] [] True 1
       = ([], [])"
    using t by simp
  show ?thesis using g a b c f by simp
qed

text \<open>
  C8. \<open>tree\<close> chooses the four glyphs once, from \<open>useAscii\<close>, with exactly the values of the
  table, and \<open>buildTree\<close> passes them on unchanged. So one render is a list of rows (the
  ancestors of an entry, whether it is the last one, its name and its kind) that does not
  depend on the glyphs, each row drawn with the chosen set alone: its ancestors by the
  space and vertical glyphs, its connector by the corner or branch glyph. The text is
  therefore made of the code units of the chosen glyphs, of \<open>/\<close>, of the newline and of
  the entry names, and of nothing else: with \<open>useAscii\<close> a box-drawing character (U+2502,
  U+251C, U+2514, U+2500) occurs in it only where an entry name has it, and without
  \<open>useAscii\<close> the bar, backslash and hyphen of the ASCII connectors occur in it only where
  an entry name has them.
\<close>

theorem tree_glyphs_fixed:
  "symbolsFor True =
     \<lparr> vertical = js ''|   '', branch = js ''|-- '', corner = [0x5C] @ js ''-- '', space = js ''    '' \<rparr>
   \<and> symbolsFor False =
     \<lparr> vertical = [0x2502] @ js ''   '', branch = [0x251C, 0x2500, 0x2500] @ js '' '',
       corner = [0x2514, 0x2500, 0x2500] @ js '' '', space = js ''    '' \<rparr>
   \<and> (\<exists>rows. \<forall>ua.
        snd (tree lc root absolutePath \<lparr>showFiles = sf, useAscii = ua\<rparr> maxDepth) =
          concat (map (rowText (symbolsFor ua)) rows))
   \<and> set (snd (tree lc root absolutePath \<lparr>showFiles = sf, useAscii = ua\<rparr> maxDepth))
        \<subseteq> glyphUnits (symbolsFor ua) \<union> {0x2F, newline} \<union> nameUnits root
   \<and> (u \<in> {0x2502, 0x251C, 0x2514, 0x2500} \<longrightarrow> u \<notin> nameUnits root \<longrightarrow>
        u \<notin> set (snd (tree lc root absolutePath \<lparr>showFiles = sf, useAscii = True\<rparr> maxDepth)))
   \<and> (u' \<in> {0x7C, 0x5C, 0x2D} \<longrightarrow> u' \<notin> nameUnits root \<longrightarrow>
        u' \<notin> set (snd (tree lc root absolutePath \<lparr>showFiles = sf, useAscii = False\<rparr> maxDepth)))"
proof -
  have a: "symbolsFor True =
     \<lparr> vertical = js ''|   '', branch = js ''|-- '', corner = [0x5C] @ js ''-- '', space = js ''    '' \<rparr>"
    by (simp add: symbolsFor_def js_def)
  have b: "symbolsFor False =
     \<lparr> vertical = [0x2502] @ js ''   '', branch = [0x251C, 0x2500, 0x2500] @ js '' '',
       corner = [0x2514, 0x2500, 0x2500] @ js '' '', space = js ''    '' \<rparr>"
    by (simp add: symbolsFor_def js_def)
  have r: "\<exists>rows. \<forall>ua.
        snd (tree lc root absolutePath \<lparr>showFiles = sf, useAscii = ua\<rparr> maxDepth) =
          concat (map (rowText (symbolsFor ua)) rows)"
  proof -
    obtain rows where rows: "\<And>sy prefix.
       snd (buildTree lc sf sy maxDepth root absolutePath prefix True 0) =
         concat (map (\<lambda>r. prefix @ rowText sy r) rows)"
      using buildTree_rows[of lc sf maxDepth root absolutePath True 0] by blast
    have "\<forall>ua. snd (tree lc root absolutePath \<lparr>showFiles = sf, useAscii = ua\<rparr> maxDepth) =
          concat (map (rowText (symbolsFor ua)) rows)"
      by (simp add: tree_def rows)
    then show ?thesis by blast
  qed
  have c: "set (snd (tree lc root absolutePath \<lparr>showFiles = sf, useAscii = ua\<rparr> maxDepth))
        \<subseteq> glyphUnits (symbolsFor ua) \<union> {0x2F, newline} \<union> nameUnits root" for ua
    using buildTree_units[of lc sf "symbolsFor ua" maxDepth root absolutePath "[]" True 0]
    by (simp add: tree_def)
  have d: "u \<in> {0x2502, 0x251C, 0x2514, 0x2500} \<longrightarrow> u \<notin> nameUnits root \<longrightarrow>
        u \<notin> set (snd (tree lc root absolutePath \<lparr>showFiles = sf, useAscii = True\<rparr> maxDepth))"
  proof (intro impI)
    assume "u \<in> {0x2502, 0x251C, 0x2514, 0x2500}" "u \<notin> nameUnits root"
    then have "u \<notin> glyphUnits (symbolsFor True) \<union> {0x2F, newline} \<union> nameUnits root"
      by (auto simp: symbolsFor_units newline_def)
    then show "u \<notin> set (snd (tree lc root absolutePath \<lparr>showFiles = sf, useAscii = True\<rparr> maxDepth))"
      using c[of True] by blast
  qed
  have e: "u' \<in> {0x7C, 0x5C, 0x2D} \<longrightarrow> u' \<notin> nameUnits root \<longrightarrow>
        u' \<notin> set (snd (tree lc root absolutePath \<lparr>showFiles = sf, useAscii = False\<rparr> maxDepth))"
  proof (intro impI)
    assume "u' \<in> {0x7C, 0x5C, 0x2D}" "u' \<notin> nameUnits root"
    then have "u' \<notin> glyphUnits (symbolsFor False) \<union> {0x2F, newline} \<union> nameUnits root"
      by (auto simp: symbolsFor_units newline_def)
    then show "u' \<notin> set (snd (tree lc root absolutePath \<lparr>showFiles = sf, useAscii = False\<rparr> maxDepth))"
      using c[of False] by blast
  qed
  from a b r c[of ua] d e show ?thesis by (intro conjI)
qed

theorem tree_glyphs_fixed_witness:
  "(0x2514 :: jschar) \<in> {0x2502, 0x251C, 0x2514, 0x2500}
   \<and> 0x2514 \<notin> nameUnits my_app
   \<and> 0x2514 \<notin> set (snd (tree asciiCompare my_app [js ''my-app'']
                             \<lparr>showFiles = True, useAscii = True\<rparr> (- 1)))
   \<and> (0x5C :: jschar) \<in> {0x7C, 0x5C, 0x2D}
   \<and> 0x5C \<notin> nameUnits my_app
   \<and> 0x5C \<notin> set (snd (tree asciiCompare my_app [js ''my-app'']
                           \<lparr>showFiles = True, useAscii = False\<rparr> (- 1)))"
proof -
  have m1: "(0x2514 :: jschar) \<in> {0x2502, 0x251C, 0x2514, 0x2500}" by simp
  have m2: "(0x5C :: jschar) \<in> {0x7C, 0x5C, 0x2D}" by simp
  note t = tree_glyphs_fixed [where u = "0x2514" and u' = "0x5C" and root = my_app
      and lc = asciiCompare and absolutePath = "[js ''my-app'']" and sf = True and maxDepth = "- 1"]
  have n1: "0x2514 \<notin> nameUnits my_app" and n2: "0x5C \<notin> nameUnits my_app"
    using my_app_nameUnits by simp_all
  have a: "0x2514 \<notin> set (snd (tree asciiCompare my_app [js ''my-app'']
                             \<lparr>showFiles = True, useAscii = True\<rparr> (- 1)))"
    using t[THEN conjunct2, THEN conjunct2, THEN conjunct2, THEN conjunct2, THEN conjunct1] m1 n1
    by blast
  have b: "0x5C \<notin> set (snd (tree asciiCompare my_app [js ''my-app'']
                           \<lparr>showFiles = True, useAscii = False\<rparr> (- 1)))"
    using t[THEN conjunct2, THEN conjunct2, THEN conjunct2, THEN conjunct2, THEN conjunct2] m2 n2
    by blast
  show ?thesis using m1 m2 n1 n2 a b by (intro conjI)
qed

text \<open>
  C5, as the code has it. For the root \<open>my-app\<close> of the README's sample, rendered with
  \<open>showFiles\<close>, the box-drawing glyphs and no depth limit, and with a collation that puts
  \<open>public\<close> before \<open>src\<close>, \<open>Footer.js\<close> before \<open>Header.js\<close>, \<open>components\<close> before
  \<open>utils\<close> and \<open>package.json\<close> before \<open>README.md\<close> (as the \<open>en\<close> collation does), the
  builder returns the lines of the sample with \<open>public/\<close> before \<open>src/\<close> and
  \<open>Footer.js\<close> before \<open>Header.js\<close>, and logs nothing.
\<close>

theorem tree_my_app:
  assumes "0 < lc (js ''src'') (js ''public'')"
    and "lc (js ''package.json'') (js ''README.md'') \<le> 0"
    and "lc (js ''components'') (js ''utils'') \<le> 0"
    and "0 < lc (js ''Header.js'') (js ''Footer.js'')"
  shows "tree lc my_app absolutePath \<lparr>showFiles = True, useAscii = False\<rparr> (- 1)
           = ([], rendered_sample)"
  using assms unfolding tree_def my_app_def
  by (simp add: buildTree.simps sortedItemsOf_def compareItems_def statIsDirectory_def
      symbolsFor_def rendered_sample_def sample_text_def tee_def ell_def bar_def slash_def
      path_join_def js_def)

theorem tree_my_app_witness:
  "0 < asciiCompare (js ''src'') (js ''public'')
   \<and> asciiCompare (js ''package.json'') (js ''README.md'') \<le> 0
   \<and> asciiCompare (js ''components'') (js ''utils'') \<le> 0
   \<and> 0 < asciiCompare (js ''Header.js'') (js ''Footer.js'')
   \<and> tree asciiCompare my_app [js ''my-app''] \<lparr>showFiles = True, useAscii = False\<rparr> (- 1)
       = ([], rendered_sample)"
  using tree_my_app [of asciiCompare "[js ''my-app'']"] asciiCompare_my_app
  by blast

text \<open>
  The sentence of C5 as it is written fails: the text the builder returns for that root is
  not the documented sample, which lists \<open>src/\<close> before \<open>public/\<close> and \<open>Header.js\<close>
  before \<open>Footer.js\<close>.
\<close>

theorem tree_my_app_counterexample:
  "snd (tree asciiCompare my_app [js ''my-app''] \<lparr>showFiles = True, useAscii = False\<rparr> (- 1))
     \<noteq> documented_sample"
  by code_simp




end
